theory Spec2Isabelle
  imports Complex_Main "HOL-Library.Word"
begin

section \<open>The timer window (class TimerWindow)\<close>

text \<open>
  The fields set under the comment "Timer state" of \<open>TimerWindow.__init__\<close>.
  Python's integers are unbounded, hence \<open>int\<close>. The widgets and what
  \<open>update_display\<close> paints are rendering and are left out: \<open>update_display\<close>
  reads the fields below and writes none of them.
\<close>

record timer_window =
  total_seconds :: int
  remaining_seconds :: int
  is_paused :: bool
  is_running :: bool

definition TimerWindow_init :: "int \<Rightarrow> timer_window" where
  "TimerWindow_init secs =
     \<lparr>total_seconds = secs, remaining_seconds = secs, is_paused = False, is_running = True\<rparr>"

definition pause :: "timer_window \<Rightarrow> timer_window" where
  "pause w = w\<lparr>is_paused := True\<rparr>"

definition resume :: "timer_window \<Rightarrow> timer_window" where
  "resume w = w\<lparr>is_paused := False\<rparr>"

definition tick :: "timer_window \<Rightarrow> timer_window" where
  "tick w =
     (if \<not> is_paused w \<and> remaining_seconds w > 0
      then w\<lparr>remaining_seconds := remaining_seconds w - 1\<rparr>
      else w)"

text \<open>The three operations of the timer controller, and a sequence of them.\<close>

datatype timer_op = Tick | PauseOp | ResumeOp

fun timer_apply :: "timer_op \<Rightarrow> timer_window \<Rightarrow> timer_window" where
  "timer_apply Tick w = tick w"
| "timer_apply PauseOp w = pause w"
| "timer_apply ResumeOp w = resume w"

fun timer_run :: "timer_op list \<Rightarrow> timer_window \<Rightarrow> timer_window" where
  "timer_run [] w = w"
| "timer_run (x # xs) w = timer_run xs (timer_apply x w)"

section \<open>The application object (class DeepWorkTimer)\<close>

text \<open>
  The fields of \<open>DeepWorkTimer\<close> that its methods read and write, under their own
  names. \<open>camera\<close> is \<open>None\<close> until \<open>cv2.VideoCapture(0)\<close> has been assigned;
  \<open>Some b\<close> records whether the device was open when it was created.
  \<open>face_detection_thread\<close> tells whether the background thread has been started,
  \<open>root_withdrawn\<close> whether \<open>root.withdraw()\<close> has hidden the input window,
  \<open>timer_scheduled\<close> whether \<open>root.after(1000, update_timer)\<close> is pending,
  \<open>error_dialogs\<close> lists the messages \<open>show_error\<close> has displayed, and
  \<open>completion_shown\<close> tells whether \<open>show_completion\<close> has run.
  \<open>time.time()\<close> is a float of seconds; it is modelled as an exact \<open>real\<close>.
\<close>

record app =
  root_withdrawn :: bool
  timer_window :: "timer_window option"
  camera :: "bool option"
  face_detection_thread :: bool
  timer_scheduled :: bool
  stop_threads :: bool
  face_detected :: bool
  no_face_start_time :: "real option"
  last_state :: string
  error_dialogs :: "string list"
  completion_shown :: bool

definition DeepWorkTimer_init :: app where
  "DeepWorkTimer_init =
     \<lparr>root_withdrawn = False, timer_window = None, camera = None,
      face_detection_thread = False, timer_scheduled = False, stop_threads = False,
      face_detected = True, no_face_start_time = None, last_state = ''running'',
      error_dialogs = [], completion_shown = False\<rparr>"

definition show_error :: "string \<Rightarrow> app \<Rightarrow> app" where
  "show_error message s = s\<lparr>error_dialogs := error_dialogs s @ [message]\<rparr>"

text \<open>
  \<open>update_timer\<close> runs on the main thread: it returns at once when the threads are
  stopped or there is no timer window, ticks when the window is not paused, and then
  either finishes the session or schedules itself again.
\<close>

definition update_timer :: "app \<Rightarrow> app" where
  "update_timer s =
     (case timer_window s of
        None \<Rightarrow> s
      | Some w \<Rightarrow>
          if stop_threads s then s
          else
            (let w1 = (if \<not> is_paused w then tick w else w);
                 s1 = s\<lparr>timer_window := Some w1\<rparr>
             in if remaining_seconds w1 \<le> 0
                then s1\<lparr>stop_threads := True, completion_shown := True,
                        timer_scheduled := False\<rparr>
                else s1\<lparr>timer_scheduled := True\<rparr>))"

text \<open>
  \<open>start_timer\<close>. The text of the entry is parsed by Python's \<open>int\<close>; the model
  takes the outcome of that call: \<open>None\<close> when it raises \<open>ValueError\<close>, else the
  number. \<open>cam_opens\<close> is what \<open>camera.isOpened()\<close> answers right after
  \<open>cv2.VideoCapture(0)\<close>.
\<close>

definition start_timer :: "int option \<Rightarrow> bool \<Rightarrow> app \<Rightarrow> app" where
  "start_timer entry cam_opens s =
     (case entry of
        None \<Rightarrow> show_error ''Please enter a valid number'' s
      | Some minutes \<Rightarrow>
          if minutes \<le> 0 \<or> minutes > 999
          then show_error ''Please enter a value between 1 and 999 minutes'' s
          else
            (let total = minutes * 60;
                 s1 = s\<lparr>root_withdrawn := True\<rparr>;
                 s2 = s1\<lparr>timer_window := Some (TimerWindow_init total)\<rparr>;
                 s3 = s2\<lparr>camera := Some cam_opens\<rparr>
             in if \<not> cam_opens
                then show_error ''Could not access webcam'' s3
                else update_timer
                       (s3\<lparr>stop_threads := False, face_detection_thread := True\<rparr>)))"

section \<open>Face detection\<close>

text \<open>
  A frame as the loop uses it: \<open>frame.shape[0]\<close>, \<open>frame.shape[1]\<close> and the
  rectangles \<open>(x, y, w, h)\<close> that \<open>detectMultiScale\<close> returned for it. A frame
  that \<open>camera.read()\<close> delivers has a positive area. The rectangles are rows of
  a numpy array of 32-bit signed integers, so the product \<open>f[2] * f[3]\<close> is a 32-bit
  product that wraps around; \<open>frame.shape\<close> is a tuple of Python integers, whose
  product does not. The quotient is a float in the source and an exact \<open>real\<close> here.
\<close>

type_synonym face = "int \<times> int \<times> int \<times> int"

record frame =
  shape0 :: nat
  shape1 :: nat
  faces :: "face list"

definition face_w :: "face \<Rightarrow> int" where
  "face_w f = (case f of (x, y, w, h) \<Rightarrow> w)"

definition face_h :: "face \<Rightarrow> int" where
  "face_h f = (case f of (x, y, w, h) \<Rightarrow> h)"

text \<open>The product of two numpy \<open>int32\<close> scalars: the low 32 bits, read as signed.\<close>

definition int32_mul :: "int \<Rightarrow> int \<Rightarrow> int" where
  "int32_mul a b = sint (word_of_int a * word_of_int b :: 32 word)"

text \<open>The key \<open>lambda f: f[2] * f[3]\<close>.\<close>

definition face_key :: "face \<Rightarrow> int" where
  "face_key f = int32_mul (face_w f) (face_h f)"

text \<open>
  Python's \<open>max(xs, key=k)\<close> keeps the first element whose key is maximal: the
  candidate is replaced only by an element with a strictly larger key.
\<close>

fun max_from :: "('a \<Rightarrow> int) \<Rightarrow> 'a \<Rightarrow> 'a list \<Rightarrow> 'a" where
  "max_from k m [] = m"
| "max_from k m (x # xs) = max_from k (if k x > k m then x else m) xs"

definition max_key :: "('a \<Rightarrow> int) \<Rightarrow> 'a list \<Rightarrow> 'a option" where
  "max_key k xs = (case xs of [] \<Rightarrow> None | x # rest \<Rightarrow> Some (max_from k x rest))"

text \<open>
  The confidence of a frame: \<open>None\<close> when no face was detected (the source then sets
  \<open>face_present = False\<close> without computing a confidence).
\<close>

definition confidence :: "frame \<Rightarrow> real option" where
  "confidence fr =
     (case max_key face_key (faces fr) of
        None \<Rightarrow> None
      | Some largest_face \<Rightarrow>
          (let face_area = int32_mul (face_w largest_face) (face_h largest_face);
               frame_area = int (shape0 fr) * int (shape1 fr)
           in Some (min 100 (real_of_int face_area / real_of_int frame_area * 1000))))"

definition face_present_of :: "frame \<Rightarrow> bool" where
  "face_present_of fr =
     (case confidence fr of None \<Rightarrow> False | Some c \<Rightarrow> c \<ge> 30)"

section \<open>The detection loop\<close>

text \<open>
  What the loop does to the world: the calls \<open>timer_window.pause()\<close> and
  \<open>timer_window.resume()\<close>, and the two notification popups ("Timer Paused / Face
  not detected" and "Timer Resumed / Welcome back!").
\<close>

datatype effect = Pause | Resume | PopupPaused | PopupResumed

text \<open>
  Reading \<open>self.timer_window.is_paused\<close> while \<open>timer_window\<close> is \<open>None\<close>
  raises \<open>AttributeError\<close>, which ends the thread.
\<close>

datatype error = AttributeError

text \<open>
  The block "Handle face detection state changes" of \<open>face_detection_loop\<close>, given
  the verdict \<open>face_present\<close> and \<open>current_time = time.time()\<close>.
\<close>

definition observe :: "bool \<Rightarrow> real \<Rightarrow> app \<Rightarrow> error + (app \<times> effect list)" where
  "observe face_present current_time s =
     (if \<not> face_present then
        (case no_face_start_time s of
           None \<Rightarrow> Inr (s\<lparr>no_face_start_time := Some current_time\<rparr>, [])
         | Some t0 \<Rightarrow>
             if current_time - t0 \<ge> 5 then
               (case timer_window s of
                  None \<Rightarrow> Inl AttributeError
                | Some w \<Rightarrow>
                    if \<not> is_paused w then
                      (let s1 = s\<lparr>timer_window := Some (pause w)\<rparr>
                       in if last_state s1 \<noteq> ''paused''
                          then Inr (s1\<lparr>last_state := ''paused''\<rparr>, [Pause, PopupPaused])
                          else Inr (s1, [Pause]))
                    else Inr (s, []))
             else Inr (s, []))
      else
        (let s1 = (if no_face_start_time s \<noteq> None
                   then s\<lparr>no_face_start_time := None\<rparr> else s)
         in case timer_window s1 of
              None \<Rightarrow> Inl AttributeError
            | Some w \<Rightarrow>
                if is_paused w then
                  (let s2 = s1\<lparr>timer_window := Some (resume w)\<rparr>
                   in if last_state s2 \<noteq> ''running''
                      then Inr (s2\<lparr>last_state := ''running''\<rparr>, [Resume, PopupResumed])
                      else Inr (s2, [Resume]))
                else Inr (s1, [])))"

text \<open>
  What one polling cycle gets from the camera: the device is not open, the read fails
  (\<open>ret\<close> is false), or a frame arrives, with the time read after detection.
\<close>

datatype cycle = NotOpened | ReadFailed | Sample frame real

text \<open>
  One pass through the body of the \<open>while\<close> loop. The preview branches are
  guarded by \<open>show_webcam_preview\<close>, which is \<open>False\<close> throughout; they draw on
  the frame and write no field. The sleep at the end of the pass changes no state.
\<close>

definition loop_body :: "cycle \<Rightarrow> app \<Rightarrow> error + (app \<times> effect list)" where
  "loop_body c s =
     (if camera s \<noteq> None then
        (case c of
           NotOpened \<Rightarrow> Inr (s, [])
         | ReadFailed \<Rightarrow> Inr (s, [])
         | Sample fr current_time \<Rightarrow> observe (face_present_of fr) current_time s)
      else Inr (s, []))"

text \<open>
  The loop \<open>while not self.stop_threads\<close>, run over the cycles the camera supplies.
  The result is the list of effects of each cycle that ran, and the state reached or the
  exception that ended the thread. The list of cycles is a finite prefix of a run: the
  loop itself never sets \<open>stop_threads\<close>.
\<close>

fun face_detection_loop :: "app \<Rightarrow> cycle list \<Rightarrow> effect list list \<times> (error + app)" where
  "face_detection_loop s [] = ([], Inr s)"
| "face_detection_loop s (c # cs) =
     (if stop_threads s then ([], Inr s)
      else
        (case loop_body c s of
           Inl e \<Rightarrow> ([], Inl e)
         | Inr (s1, es) \<Rightarrow>
             (case face_detection_loop s1 cs of (tr, r) \<Rightarrow> (es # tr, r))))"

section \<open>Vocabulary of the properties\<close>

text \<open>
  \<open>paused\<close> reads the \<open>is_paused\<close> flag of the timer window (no window: not
  paused). A session is \<open>live\<close> once \<open>start_timer\<close> has succeeded: the timer window
  and the camera exist and the threads are not stopped. \<open>grace_over s t\<close> is the test
  \<open>current_time - no_face_start_time >= 5\<close> of the loop, for a running absence timer.
\<close>

definition paused :: "app \<Rightarrow> bool" where
  "paused s = (case timer_window s of None \<Rightarrow> False | Some w \<Rightarrow> is_paused w)"

definition live :: "app \<Rightarrow> bool" where
  "live s = (timer_window s \<noteq> None \<and> camera s \<noteq> None \<and> \<not> stop_threads s)"

definition grace_over :: "app \<Rightarrow> real \<Rightarrow> bool" where
  "grace_over s t = (case no_face_start_time s of None \<Rightarrow> False | Some t0 \<Rightarrow> t - t0 \<ge> 5)"

text \<open>
  A sample is a frame with the time at which it was observed. \<open>effects_of\<close> and
  \<open>state_after\<close> are the two components of the result of \<open>face_detection_loop\<close>.
\<close>

definition sample_cycle :: "frame \<times> real \<Rightarrow> cycle" where
  "sample_cycle x = Sample (fst x) (snd x)"

definition effects_of :: "app \<Rightarrow> cycle list \<Rightarrow> effect list list" where
  "effects_of s cs = fst (face_detection_loop s cs)"

definition state_after :: "app \<Rightarrow> cycle list \<Rightarrow> error + app" where
  "state_after s cs = snd (face_detection_loop s cs)"

text \<open>
  The three situations of the debouncer, read off the two fields it keeps: the pause
  flag and the absence timer.
\<close>

datatype presence_state = RUNNING | RUNNING_AWAITING_ABSENCE_CONFIRM | PAUSED

definition machine_state :: "app \<Rightarrow> presence_state" where
  "machine_state s =
     (if paused s then PAUSED
      else if no_face_start_time s = None then RUNNING
      else RUNNING_AWAITING_ABSENCE_CONFIRM)"

text \<open>
  A rectangle lies inside a frame: \<open>shape1\<close> is the width of the frame and
  \<open>shape0\<close> its height.
\<close>

definition inside_frame :: "frame \<Rightarrow> face \<Rightarrow> bool" where
  "inside_frame fr f =
     (case f of (x, y, w, h) \<Rightarrow>
        0 \<le> x \<and> 0 \<le> y \<and> 0 \<le> w \<and> 0 \<le> h
        \<and> x + w \<le> int (shape1 fr) \<and> y + h \<le> int (shape0 fr))"

text \<open>The notification bookkeeping agrees with the pause flag.\<close>

definition coupled :: "app \<Rightarrow> bool" where
  "coupled s = ((last_state s = ''paused'') = paused s)"

text \<open>The pause and resume calls, and the two popups.\<close>

definition is_signal :: "effect \<Rightarrow> bool" where
  "is_signal e = (e = Pause \<or> e = Resume)"

definition is_popup :: "effect \<Rightarrow> bool" where
  "is_popup e = (e = PopupPaused \<or> e = PopupResumed)"

section \<open>Concrete sessions\<close>

text \<open>
  A 480 by 640 frame without a face, and one with two faces, the larger of 200 by 200
  pixels. \<open>started\<close> is the application after a successful start of 25 minutes,
  \<open>awaiting\<close> the same session with the absence timer started at time 0, and
  \<open>paused_app\<close> that session after the pause. \<open>far_face\<close> has three smaller faces,
  two of them of the same largest area; \<open>wrapping_faces\<close> has a rectangle whose
  32-bit area wraps around.
\<close>

definition no_face :: frame where
  "no_face = \<lparr>shape0 = 480, shape1 = 640, faces = []\<rparr>"

definition near_face :: frame where
  "near_face = \<lparr>shape0 = 480, shape1 = 640, faces = [(10, 10, 40, 40), (200, 100, 200, 200)]\<rparr>"

definition started :: app where
  "started = start_timer (Some 25) True DeepWorkTimer_init"

definition awaiting :: app where
  "awaiting = started\<lparr>no_face_start_time := Some 0\<rparr>"

definition paused_app :: app where
  "paused_app = started\<lparr>no_face_start_time := Some 0,
     timer_window := Some \<lparr>total_seconds = 1500, remaining_seconds = 1499, is_paused = True, is_running = True\<rparr>,
     last_state := ''paused''\<rparr>"

definition far_face :: frame where
  "far_face = \<lparr>shape0 = 480, shape1 = 640, faces = [(0, 0, 60, 64), (5, 5, 96, 80), (9, 9, 96, 80)]\<rparr>"

definition wrapping_faces :: frame where
  "wrapping_faces = \<lparr>shape0 = 480, shape1 = 640, faces = [(0, 0, 50000, 50000), (0, 0, 10, 10)]\<rparr>"

definition mixed_cycles :: "cycle list" where
  "mixed_cycles =
     [Sample no_face 0, ReadFailed, Sample no_face 5, Sample no_face 6, NotOpened,
      Sample near_face 7, Sample near_face 8, Sample no_face 9, Sample no_face 14]"

section \<open>The timer controller keeps the remaining time non-negative\<close>

lemma timer_apply_nonneg:
  "0 \<le> remaining_seconds w \<Longrightarrow> 0 \<le> remaining_seconds (timer_apply x w)"
  by (cases x) (simp_all add: tick_def pause_def resume_def)

lemma timer_run_nonneg:
  "0 \<le> remaining_seconds w \<Longrightarrow> 0 \<le> remaining_seconds (timer_run xs w)"
  by (induction xs arbitrary: w) (simp_all add: timer_apply_nonneg)

text \<open>
  Claim C9. Starting from a non-negative \<open>remaining_seconds\<close>, every sequence of
  \<open>tick\<close>, \<open>pause\<close> and \<open>resume\<close> leaves it non-negative; \<open>tick\<close> takes exactly
  one second off when the window is not paused and time remains, and changes nothing
  otherwise; \<open>pause\<close> and \<open>resume\<close> do not touch the remaining time.
\<close>

theorem remaining_seconds_nonneg:
  assumes "0 \<le> remaining_seconds w"
  shows "0 \<le> remaining_seconds (timer_run ops w)
       \<and> 0 \<le> remaining_seconds (tick w)
       \<and> 0 \<le> remaining_seconds (pause w)
       \<and> 0 \<le> remaining_seconds (resume w)
       \<and> tick w = (if \<not> is_paused w \<and> 0 < remaining_seconds w
                    then w\<lparr>remaining_seconds := remaining_seconds w - 1\<rparr> else w)
       \<and> remaining_seconds (pause w) = remaining_seconds w
       \<and> remaining_seconds (resume w) = remaining_seconds w"
  using assms timer_run_nonneg [of w ops]
  by (simp add: tick_def pause_def resume_def)

theorem remaining_seconds_nonneg_witness:
  "0 \<le> remaining_seconds (TimerWindow_init 1)
   \<and> 0 \<le> remaining_seconds (timer_run [Tick, Tick, PauseOp, Tick, ResumeOp, Tick] (TimerWindow_init 1))
   \<and> remaining_seconds (tick (TimerWindow_init 1)) = 0
   \<and> remaining_seconds (tick (tick (TimerWindow_init 1))) = 0
   \<and> remaining_seconds (tick (pause (TimerWindow_init 1))) = 1"
  using remaining_seconds_nonneg [of "TimerWindow_init 1" "[Tick, Tick, PauseOp, Tick, ResumeOp, Tick]"]
  by (simp add: TimerWindow_init_def tick_def pause_def resume_def)

section \<open>One observation\<close>

text \<open>What one observation does in a session that has a timer window.\<close>

lemma observe_absent:
  assumes "timer_window s \<noteq> None"
  shows "\<exists>s' es. observe False t s = Inr (s', es)
     \<and> timer_window s' \<noteq> None \<and> camera s' = camera s \<and> stop_threads s' = stop_threads s
     \<and> no_face_start_time s' = (case no_face_start_time s of None \<Rightarrow> Some t | Some t0 \<Rightarrow> Some t0)
     \<and> paused s' = (paused s \<or> grace_over s t)
     \<and> (es = [] \<or> es = [Pause] \<or> es = [Pause, PopupPaused])
     \<and> (es \<noteq> [] \<longleftrightarrow> \<not> paused s \<and> grace_over s t)"
  using assms
  by (auto simp: observe_def paused_def grace_over_def pause_def Let_def split: option.splits)

lemma observe_present:
  assumes "timer_window s \<noteq> None"
  shows "\<exists>s' es. observe True t s = Inr (s', es)
     \<and> timer_window s' \<noteq> None \<and> camera s' = camera s \<and> stop_threads s' = stop_threads s
     \<and> no_face_start_time s' = None
     \<and> \<not> paused s'
     \<and> (es = [] \<or> es = [Resume] \<or> es = [Resume, PopupResumed])
     \<and> (es \<noteq> [] \<longleftrightarrow> paused s)"
  using assms
  by (auto simp: observe_def paused_def resume_def Let_def split: option.splits)

lemma observe_effects:
  assumes "observe fp t s = Inr (s1, es)"
  shows "(es = [] \<and> paused s1 = paused s \<and> last_state s1 = last_state s)
       \<or> (es = [Pause] \<and> \<not> paused s \<and> paused s1
             \<and> last_state s = ''paused'' \<and> last_state s1 = ''paused'')
       \<or> (es = [Pause, PopupPaused] \<and> \<not> paused s \<and> paused s1
             \<and> last_state s \<noteq> ''paused'' \<and> last_state s1 = ''paused'')
       \<or> (es = [Resume] \<and> paused s \<and> \<not> paused s1
             \<and> last_state s = ''running'' \<and> last_state s1 = ''running'')
       \<or> (es = [Resume, PopupResumed] \<and> paused s \<and> \<not> paused s1
             \<and> last_state s \<noteq> ''running'' \<and> last_state s1 = ''running'')"
proof (cases fp)
  case True
  with assms show ?thesis
    by (auto simp: observe_def paused_def resume_def Let_def split: option.splits if_splits)
next
  case False
  with assms show ?thesis
    by (auto simp: observe_def paused_def pause_def Let_def split: option.splits if_splits)
qed

lemma loop_body_effects:
  assumes "loop_body c s = Inr (s1, es)"
  shows "(es = [] \<and> paused s1 = paused s \<and> last_state s1 = last_state s)
       \<or> (es = [Pause] \<and> \<not> paused s \<and> paused s1
             \<and> last_state s = ''paused'' \<and> last_state s1 = ''paused'')
       \<or> (es = [Pause, PopupPaused] \<and> \<not> paused s \<and> paused s1
             \<and> last_state s \<noteq> ''paused'' \<and> last_state s1 = ''paused'')
       \<or> (es = [Resume] \<and> paused s \<and> \<not> paused s1
             \<and> last_state s = ''running'' \<and> last_state s1 = ''running'')
       \<or> (es = [Resume, PopupResumed] \<and> paused s \<and> \<not> paused s1
             \<and> last_state s \<noteq> ''running'' \<and> last_state s1 = ''running'')"
proof (cases "camera s \<noteq> None \<and> (\<exists>fr t. c = Sample fr t)")
  case True
  then obtain fr t where "c = Sample fr t" "camera s \<noteq> None" by blast
  with assms have "observe (face_present_of fr) t s = Inr (s1, es)"
    by (simp add: loop_body_def)
  then show ?thesis by (rule observe_effects)
next
  case False
  with assms have "s1 = s \<and> es = []"
    by (cases c) (auto simp: loop_body_def split: if_splits)
  then show ?thesis by simp
qed

section \<open>Runs of the detection loop\<close>

lemma effects_of_Nil [simp]: "effects_of s [] = []"
  by (simp add: effects_of_def)

lemma state_after_Nil [simp]: "state_after s [] = Inr s"
  by (simp add: state_after_def)

lemma effects_of_Cons:
  "effects_of s (c # cs) =
     (if stop_threads s then []
      else (case loop_body c s of Inl e \<Rightarrow> [] | Inr (s1, es) \<Rightarrow> es # effects_of s1 cs))"
  by (simp add: effects_of_def split: sum.splits prod.splits)

lemma state_after_Cons:
  "state_after s (c # cs) =
     (if stop_threads s then Inr s
      else (case loop_body c s of Inl e \<Rightarrow> Inl e | Inr (s1, es) \<Rightarrow> state_after s1 cs))"
  by (simp add: state_after_def split: sum.splits prod.splits)

lemma loop_sample_step:
  assumes "live s" and "observe (face_present_of (fst x)) (snd x) s = Inr (s1, es)"
  shows "effects_of s (sample_cycle x # cs) = es # effects_of s1 cs"
    and "state_after s (sample_cycle x # cs) = state_after s1 cs"
  using assms
  by (simp_all add: effects_of_def state_after_def live_def loop_body_def sample_cycle_def
      split: prod.splits)

lemma absent_step:
  assumes "live s" and "\<not> face_present_of (fst x)"
  obtains s1 es where
    "effects_of s (sample_cycle x # cs) = es # effects_of s1 cs"
    "state_after s (sample_cycle x # cs) = state_after s1 cs"
    "live s1"
    "no_face_start_time s1 = (case no_face_start_time s of None \<Rightarrow> Some (snd x) | Some t0 \<Rightarrow> Some t0)"
    "paused s1 = (paused s \<or> grace_over s (snd x))"
    "es = [] \<or> es = [Pause] \<or> es = [Pause, PopupPaused]"
    "es \<noteq> [] \<longleftrightarrow> \<not> paused s \<and> grace_over s (snd x)"
proof -
  from assms(1) have "timer_window s \<noteq> None" by (simp add: live_def)
  from observe_absent [OF this, of "snd x"] obtain s1 es where
    o: "observe False (snd x) s = Inr (s1, es)"
    and p: "timer_window s1 \<noteq> None" "camera s1 = camera s" "stop_threads s1 = stop_threads s"
      "no_face_start_time s1 = (case no_face_start_time s of None \<Rightarrow> Some (snd x) | Some t0 \<Rightarrow> Some t0)"
      "paused s1 = (paused s \<or> grace_over s (snd x))"
      "es = [] \<or> es = [Pause] \<or> es = [Pause, PopupPaused]"
      "es \<noteq> [] \<longleftrightarrow> \<not> paused s \<and> grace_over s (snd x)"
    by blast
  from o assms(2) have o': "observe (face_present_of (fst x)) (snd x) s = Inr (s1, es)" by simp
  have "live s1" using assms(1) p(1-3) by (simp add: live_def)
  with loop_sample_step [OF assms(1) o', of cs] p show ?thesis
    by (intro that [of es s1]) 
qed

lemma present_step:
  assumes "live s" and "face_present_of (fst x)"
  obtains s1 es where
    "effects_of s (sample_cycle x # cs) = es # effects_of s1 cs"
    "state_after s (sample_cycle x # cs) = state_after s1 cs"
    "live s1"
    "no_face_start_time s1 = None"
    "\<not> paused s1"
    "es = [] \<or> es = [Resume] \<or> es = [Resume, PopupResumed]"
    "es \<noteq> [] \<longleftrightarrow> paused s"
proof -
  from assms(1) have "timer_window s \<noteq> None" by (simp add: live_def)
  from observe_present [OF this, of "snd x"] obtain s1 es where
    o: "observe True (snd x) s = Inr (s1, es)"
    and p: "timer_window s1 \<noteq> None" "camera s1 = camera s" "stop_threads s1 = stop_threads s"
      "no_face_start_time s1 = None"
      "\<not> paused s1"
      "es = [] \<or> es = [Resume] \<or> es = [Resume, PopupResumed]"
      "es \<noteq> [] \<longleftrightarrow> paused s"
    by blast
  from o assms(2) have o': "observe (face_present_of (fst x)) (snd x) s = Inr (s1, es)" by simp
  have "live s1" using assms(1) p(1-3) by (simp add: live_def)
  with loop_sample_step [OF assms(1) o', of cs] p show ?thesis
    by (intro that [of es s1]) 
qed

text \<open>Every sample cycle of a live session runs: one entry of effects per cycle.\<close>

lemma samples_run:
  assumes "live s"
  shows "length (effects_of s (map sample_cycle xs)) = length xs
       \<and> (\<exists>s'. state_after s (map sample_cycle xs) = Inr s' \<and> live s')"
  using assms
proof (induction xs arbitrary: s)
  case Nil
  then show ?case by simp
next
  case (Cons x xs)
  show ?case
  proof (cases "face_present_of (fst x)")
    case True
    from present_step [OF Cons.prems True, of "map sample_cycle xs"] obtain s1 es where
      "effects_of s (sample_cycle x # map sample_cycle xs) = es # effects_of s1 (map sample_cycle xs)"
      "state_after s (sample_cycle x # map sample_cycle xs) = state_after s1 (map sample_cycle xs)"
      "live s1" by blast
    with Cons.IH [of s1] show ?thesis by simp
  next
    case False
    from absent_step [OF Cons.prems False, of "map sample_cycle xs"] obtain s1 es where
      "effects_of s (sample_cycle x # map sample_cycle xs) = es # effects_of s1 (map sample_cycle xs)"
      "state_after s (sample_cycle x # map sample_cycle xs) = state_after s1 (map sample_cycle xs)"
      "live s1" by blast
    with Cons.IH [of s1] show ?thesis by simp
  qed
qed

text \<open>While paused, samples without a face are silent.\<close>

lemma paused_absent_silent:
  assumes "live s" and "paused s" and "\<forall>x\<in>set xs. \<not> face_present_of (fst x)"
  shows "effects_of s (map sample_cycle xs) = replicate (length xs) []
       \<and> (\<exists>s'. state_after s (map sample_cycle xs) = Inr s' \<and> live s' \<and> paused s')"
  using assms
proof (induction xs arbitrary: s)
  case Nil
  then show ?case by simp
next
  case (Cons x xs)
  from Cons.prems have a: "\<not> face_present_of (fst x)" by simp
  obtain s1 es where
    st: "effects_of s (sample_cycle x # map sample_cycle xs) = es # effects_of s1 (map sample_cycle xs)"
      "state_after s (sample_cycle x # map sample_cycle xs) = state_after s1 (map sample_cycle xs)"
      "live s1"
      "no_face_start_time s1 = (case no_face_start_time s of None \<Rightarrow> Some (snd x) | Some t0 \<Rightarrow> Some t0)"
      "paused s1 = (paused s \<or> grace_over s (snd x))"
      "es = [] \<or> es = [Pause] \<or> es = [Pause, PopupPaused]"
      "es \<noteq> [] \<longleftrightarrow> \<not> paused s \<and> grace_over s (snd x)"
    by (rule absent_step [OF Cons.prems(1) a, of "map sample_cycle xs"])
  from st(5,7) Cons.prems(2) have p1: "paused s1" and e: "es = []" by simp_all
  from Cons.prems have r: "\<forall>x\<in>set xs. \<not> face_present_of (fst x)" by simp
  from Cons.IH [OF st(3) p1 r] st(1,2) e show ?case
    by simp
qed

text \<open>While the absence timer runs and the window is not paused.\<close>

lemma awaiting_absent_pause_at:
  assumes "live s" and "\<not> paused s" and "no_face_start_time s = Some t0"
    and "\<forall>x\<in>set xs. \<not> face_present_of (fst x)"
  shows "\<forall>i<length xs. Pause \<in> set (effects_of s (map sample_cycle xs) ! i)
           \<longleftrightarrow> (t0 + 5 \<le> snd (xs ! i) \<and> (\<forall>j<i. snd (xs ! j) < t0 + 5))"
  using assms
proof (induction xs arbitrary: s)
  case Nil
  then show ?case by simp
next
  case (Cons x xs)
  from Cons.prems have a: "\<not> face_present_of (fst x)" by simp
  from Cons.prems have r: "\<forall>x\<in>set xs. \<not> face_present_of (fst x)" by simp
  obtain s1 es where
    st: "effects_of s (sample_cycle x # map sample_cycle xs) = es # effects_of s1 (map sample_cycle xs)"
      "state_after s (sample_cycle x # map sample_cycle xs) = state_after s1 (map sample_cycle xs)"
      "live s1"
      "no_face_start_time s1 = (case no_face_start_time s of None \<Rightarrow> Some (snd x) | Some t0 \<Rightarrow> Some t0)"
      "paused s1 = (paused s \<or> grace_over s (snd x))"
      "es = [] \<or> es = [Pause] \<or> es = [Pause, PopupPaused]"
      "es \<noteq> [] \<longleftrightarrow> \<not> paused s \<and> grace_over s (snd x)"
    by (rule absent_step [OF Cons.prems(1) a, of "map sample_cycle xs"])
  have g: "grace_over s (snd x) \<longleftrightarrow> t0 + 5 \<le> snd x"
    using Cons.prems(3) by (auto simp: grace_over_def)
  show ?case
  proof (cases "t0 + 5 \<le> snd x")
    case True
    with g st(5,6,7) Cons.prems(2) have p1: "paused s1" and e: "Pause \<in> set es" by auto
    from paused_absent_silent [OF st(3) p1 r]
    have sil: "effects_of s1 (map sample_cycle xs) = replicate (length xs) []" by simp
    show ?thesis
    proof (intro allI impI)
      fix i assume "i < length (x # xs)"
      then show "Pause \<in> set (effects_of s (map sample_cycle (x # xs)) ! i)
           \<longleftrightarrow> (t0 + 5 \<le> snd ((x # xs) ! i) \<and> (\<forall>j<i. snd ((x # xs) ! j) < t0 + 5))"
      proof (cases i)
        case 0
        with True e st(1) show ?thesis by simp
      next
        case (Suc k)
        with \<open>i < length (x # xs)\<close> have "k < length xs" by simp
        with Suc st(1) sil have "Pause \<notin> set (effects_of s (map sample_cycle (x # xs)) ! i)"
          by simp
        moreover from True Suc have "\<not> (\<forall>j<i. snd ((x # xs) ! j) < t0 + 5)"
          by (auto intro: exI [of _ 0])
        ultimately show ?thesis by simp
      qed
    qed
  next
    case False
    with g st(5,7) Cons.prems(2) have p1: "\<not> paused s1" and e: "es = []" by auto
    from st(4) Cons.prems(3) have n1: "no_face_start_time s1 = Some t0" by simp
    note IH = Cons.IH [OF st(3) p1 n1 r]
    show ?thesis
    proof (intro allI impI)
      fix i assume il: "i < length (x # xs)"
      show "Pause \<in> set (effects_of s (map sample_cycle (x # xs)) ! i)
           \<longleftrightarrow> (t0 + 5 \<le> snd ((x # xs) ! i) \<and> (\<forall>j<i. snd ((x # xs) ! j) < t0 + 5))"
      proof (cases i)
        case 0
        with False e st(1) show ?thesis by simp
      next
        case (Suc k)
        with il have kl: "k < length xs" by simp
        from IH kl have "Pause \<in> set (effects_of s1 (map sample_cycle xs) ! k)
           \<longleftrightarrow> (t0 + 5 \<le> snd (xs ! k) \<and> (\<forall>j<k. snd (xs ! j) < t0 + 5))" by blast
        moreover have "(\<forall>j<Suc k. snd ((x # xs) ! j) < t0 + 5)
            \<longleftrightarrow> (\<forall>j<k. snd (xs ! j) < t0 + 5)"
          using False by (simp add: All_less_Suc2)
        ultimately show ?thesis using Suc st(1) by simp
      qed
    qed
  qed
qed

lemma awaiting_absent_pause_count:
  assumes "live s" and "\<not> paused s" and "no_face_start_time s = Some t0"
    and "\<forall>x\<in>set xs. \<not> face_present_of (fst x)"
  shows "count_list (concat (effects_of s (map sample_cycle xs))) Pause
           = (if \<exists>x\<in>set xs. t0 + 5 \<le> snd x then 1 else 0)"
  using assms
proof (induction xs arbitrary: s)
  case Nil
  then show ?case by simp
next
  case (Cons x xs)
  from Cons.prems have a: "\<not> face_present_of (fst x)" by simp
  from Cons.prems have r: "\<forall>x\<in>set xs. \<not> face_present_of (fst x)" by simp
  obtain s1 es where
    st: "effects_of s (sample_cycle x # map sample_cycle xs) = es # effects_of s1 (map sample_cycle xs)"
      "state_after s (sample_cycle x # map sample_cycle xs) = state_after s1 (map sample_cycle xs)"
      "live s1"
      "no_face_start_time s1 = (case no_face_start_time s of None \<Rightarrow> Some (snd x) | Some t0 \<Rightarrow> Some t0)"
      "paused s1 = (paused s \<or> grace_over s (snd x))"
      "es = [] \<or> es = [Pause] \<or> es = [Pause, PopupPaused]"
      "es \<noteq> [] \<longleftrightarrow> \<not> paused s \<and> grace_over s (snd x)"
    by (rule absent_step [OF Cons.prems(1) a, of "map sample_cycle xs"])
  have g: "grace_over s (snd x) \<longleftrightarrow> t0 + 5 \<le> snd x"
    using Cons.prems(3) by (auto simp: grace_over_def)
  show ?case
  proof (cases "t0 + 5 \<le> snd x")
    case True
    with g st(5,6,7) Cons.prems(2) have p1: "paused s1" and e: "count_list es Pause = 1" by auto
    from paused_absent_silent [OF st(3) p1 r]
    have sil: "effects_of s1 (map sample_cycle xs) = replicate (length xs) []" by simp
    have "concat (replicate (length xs) ([] :: effect list)) = []" by simp
    with True st(1) sil e show ?thesis by simp
  next
    case False
    with g st(5,7) Cons.prems(2) have p1: "\<not> paused s1" and e: "es = []" by auto
    from st(4) Cons.prems(3) have n1: "no_face_start_time s1 = Some t0" by simp
    from Cons.IH [OF st(3) p1 n1 r] False e st(1) show ?thesis by simp
  qed
qed

text \<open>A pause is only ever emitted at the end of a full run of absence.\<close>

lemma pause_needs_full_grace:
  assumes "live s"
  shows "\<forall>i<length xs. Pause \<in> set (effects_of s (map sample_cycle xs) ! i) \<longrightarrow>
           (\<exists>j<i. (\<forall>k. j \<le> k \<and> k \<le> i \<longrightarrow> \<not> face_present_of (fst (xs ! k)))
                  \<and> snd (xs ! i) - snd (xs ! j) \<ge> 5)
         \<or> (\<exists>t0. no_face_start_time s = Some t0
                  \<and> (\<forall>k\<le>i. \<not> face_present_of (fst (xs ! k)))
                  \<and> snd (xs ! i) - t0 \<ge> 5)"
  using assms
proof (induction xs arbitrary: s)
  case Nil
  then show ?case by simp
next
  case (Cons x xs)
  let ?P = "\<lambda>s ys i. (\<exists>j<i. (\<forall>k. j \<le> k \<and> k \<le> i \<longrightarrow> \<not> face_present_of (fst (ys ! k)))
                  \<and> snd (ys ! i) - snd (ys ! j) \<ge> 5)
         \<or> (\<exists>t0. no_face_start_time s = Some t0
                  \<and> (\<forall>k\<le>i. \<not> face_present_of (fst (ys ! k)))
                  \<and> snd (ys ! i) - t0 \<ge> 5)"
  show ?case
  proof (intro allI impI)
    fix i
    assume il: "i < length (x # xs)"
      and pz: "Pause \<in> set (effects_of s (map sample_cycle (x # xs)) ! i)"
    show "?P s (x # xs) i"
    proof (cases "face_present_of (fst x)")
      case True
      obtain s1 es where
        st: "effects_of s (sample_cycle x # map sample_cycle xs) = es # effects_of s1 (map sample_cycle xs)"
          "state_after s (sample_cycle x # map sample_cycle xs) = state_after s1 (map sample_cycle xs)"
          "live s1"
          "no_face_start_time s1 = None"
          "\<not> paused s1"
          "es = [] \<or> es = [Resume] \<or> es = [Resume, PopupResumed]"
          "es \<noteq> [] \<longleftrightarrow> paused s"
        by (rule present_step [OF Cons.prems True, of "map sample_cycle xs"])
      from st(6) have ne: "Pause \<notin> set es" by auto
      show ?thesis
      proof (cases i)
        case 0
        with pz st(1) ne show ?thesis by simp
      next
        case (Suc m)
        with il have ml: "m < length xs" by simp
        from pz Suc st(1) have "Pause \<in> set (effects_of s1 (map sample_cycle xs) ! m)" by simp
        with Cons.IH [OF st(3)] ml have "?P s1 xs m" by blast
        with st(4) obtain j where j: "j < m"
          "\<forall>k. j \<le> k \<and> k \<le> m \<longrightarrow> \<not> face_present_of (fst (xs ! k))"
          "snd (xs ! m) - snd (xs ! j) \<ge> 5" by auto
        have "Suc j < i" using j(1) Suc by simp
        moreover have "\<forall>k. Suc j \<le> k \<and> k \<le> i \<longrightarrow> \<not> face_present_of (fst ((x # xs) ! k))"
        proof (intro allI impI)
          fix k assume k: "Suc j \<le> k \<and> k \<le> i"
          then obtain k' where k': "k = Suc k'" by (cases k) auto
          with k Suc have "j \<le> k' \<and> k' \<le> m" by simp
          with j(2) k' show "\<not> face_present_of (fst ((x # xs) ! k))" by simp
        qed
        moreover have "snd ((x # xs) ! i) - snd ((x # xs) ! Suc j) \<ge> 5"
          using j(3) Suc by simp
        ultimately show ?thesis by blast
      qed
    next
      case False
      obtain s1 es where
        st: "effects_of s (sample_cycle x # map sample_cycle xs) = es # effects_of s1 (map sample_cycle xs)"
          "state_after s (sample_cycle x # map sample_cycle xs) = state_after s1 (map sample_cycle xs)"
          "live s1"
          "no_face_start_time s1 = (case no_face_start_time s of None \<Rightarrow> Some (snd x) | Some t0 \<Rightarrow> Some t0)"
          "paused s1 = (paused s \<or> grace_over s (snd x))"
          "es = [] \<or> es = [Pause] \<or> es = [Pause, PopupPaused]"
          "es \<noteq> [] \<longleftrightarrow> \<not> paused s \<and> grace_over s (snd x)"
        by (rule absent_step [OF Cons.prems False, of "map sample_cycle xs"])
      show ?thesis
      proof (cases i)
        case 0
        with pz st(1) have "es \<noteq> []" by auto
        with st(7) have "grace_over s (snd x)" by simp
        then obtain t0 where "no_face_start_time s = Some t0" "snd x - t0 \<ge> 5"
          by (auto simp: grace_over_def split: option.splits)
        with 0 False show ?thesis by simp
      next
        case (Suc m)
        with il have ml: "m < length xs" by simp
        from pz Suc st(1) have "Pause \<in> set (effects_of s1 (map sample_cycle xs) ! m)" by simp
        with Cons.IH [OF st(3)] ml have "?P s1 xs m" by blast
        then consider
          (run) j where "j < m"
            "\<forall>k. j \<le> k \<and> k \<le> m \<longrightarrow> \<not> face_present_of (fst (xs ! k))"
            "snd (xs ! m) - snd (xs ! j) \<ge> 5"
          | (start) t0 where "no_face_start_time s1 = Some t0"
            "\<forall>k\<le>m. \<not> face_present_of (fst (xs ! k))"
            "snd (xs ! m) - t0 \<ge> 5"
          by blast
        then show ?thesis
        proof cases
          case run
          have "Suc j < i" using run(1) Suc by simp
          moreover have "\<forall>k. Suc j \<le> k \<and> k \<le> i \<longrightarrow> \<not> face_present_of (fst ((x # xs) ! k))"
          proof (intro allI impI)
            fix k assume k: "Suc j \<le> k \<and> k \<le> i"
            then obtain k' where k': "k = Suc k'" by (cases k) auto
            with k Suc have "j \<le> k' \<and> k' \<le> m" by simp
            with run(2) k' show "\<not> face_present_of (fst ((x # xs) ! k))" by simp
          qed
          moreover have "snd ((x # xs) ! i) - snd ((x # xs) ! Suc j) \<ge> 5"
            using run(3) Suc by simp
          ultimately show ?thesis by blast
        next
          case start
          have all: "\<forall>k\<le>i. \<not> face_present_of (fst ((x # xs) ! k))"
          proof (intro allI impI)
            fix k assume k: "k \<le> i"
            show "\<not> face_present_of (fst ((x # xs) ! k))"
            proof (cases k)
              case 0
              with False show ?thesis by simp
            next
              case (Suc k')
              with k \<open>i = Suc m\<close> have "k' \<le> m" by simp
              with start(2) Suc show ?thesis by simp
            qed
          qed
          show ?thesis
          proof (cases "no_face_start_time s")
            case None
            with st(4) start(1) have t0: "t0 = snd x" by simp
            have "0 < i" using Suc by simp
            moreover have "\<forall>k. 0 \<le> k \<and> k \<le> i \<longrightarrow> \<not> face_present_of (fst ((x # xs) ! k))"
              using all by simp
            moreover have "snd ((x # xs) ! i) - snd ((x # xs) ! 0) \<ge> 5"
              using start(3) t0 Suc by simp
            ultimately show ?thesis by blast
          next
            case (Some u)
            with st(4) start(1) have "no_face_start_time s = Some t0" by simp
            moreover have "snd ((x # xs) ! i) - t0 \<ge> 5" using start(3) Suc by simp
            ultimately show ?thesis using all by blast
          qed
        qed
      qed
    qed
  qed
qed

text \<open>While running, a sample with a face is silent as long as no pause has happened.\<close>

lemma running_present_silent:
  assumes "live s" and "\<not> paused s"
  shows "\<forall>i<length xs. face_present_of (fst (xs ! i))
           \<and> (\<forall>k<i. Pause \<notin> set (effects_of s (map sample_cycle xs) ! k))
           \<longrightarrow> effects_of s (map sample_cycle xs) ! i = []"
  using assms
proof (induction xs arbitrary: s)
  case Nil
  then show ?case by simp
next
  case (Cons x xs)
  show ?case
  proof (intro allI impI)
    fix i
    assume il: "i < length (x # xs)"
      and h: "face_present_of (fst ((x # xs) ! i))
           \<and> (\<forall>k<i. Pause \<notin> set (effects_of s (map sample_cycle (x # xs)) ! k))"
    show "effects_of s (map sample_cycle (x # xs)) ! i = []"
    proof (cases "face_present_of (fst x)")
      case True
      obtain s1 es where
        st: "effects_of s (sample_cycle x # map sample_cycle xs) = es # effects_of s1 (map sample_cycle xs)"
          "state_after s (sample_cycle x # map sample_cycle xs) = state_after s1 (map sample_cycle xs)"
          "live s1"
          "no_face_start_time s1 = None"
          "\<not> paused s1"
          "es = [] \<or> es = [Resume] \<or> es = [Resume, PopupResumed]"
          "es \<noteq> [] \<longleftrightarrow> paused s"
        by (rule present_step [OF Cons.prems(1) True, of "map sample_cycle xs"])
      from st(7) Cons.prems(2) have e: "es = []" by simp
      show ?thesis
      proof (cases i)
        case 0
        with st(1) e show ?thesis by simp
      next
        case (Suc m)
        with il have ml: "m < length xs" by simp
        from h Suc have f: "face_present_of (fst (xs ! m))" by simp
        have "\<forall>k<m. Pause \<notin> set (effects_of s1 (map sample_cycle xs) ! k)"
        proof (intro allI impI)
          fix k assume "k < m"
          then have "Suc k < i" using Suc by simp
          with h have "Pause \<notin> set (effects_of s (map sample_cycle (x # xs)) ! Suc k)" by blast
          with st(1) show "Pause \<notin> set (effects_of s1 (map sample_cycle xs) ! k)" by simp
        qed
        with Cons.IH [OF st(3) st(5)] ml f
        have "effects_of s1 (map sample_cycle xs) ! m = []" by blast
        with Suc st(1) show ?thesis by simp
      qed
    next
      case False
      obtain s1 es where
        st: "effects_of s (sample_cycle x # map sample_cycle xs) = es # effects_of s1 (map sample_cycle xs)"
          "state_after s (sample_cycle x # map sample_cycle xs) = state_after s1 (map sample_cycle xs)"
          "live s1"
          "no_face_start_time s1 = (case no_face_start_time s of None \<Rightarrow> Some (snd x) | Some t0 \<Rightarrow> Some t0)"
          "paused s1 = (paused s \<or> grace_over s (snd x))"
          "es = [] \<or> es = [Pause] \<or> es = [Pause, PopupPaused]"
          "es \<noteq> [] \<longleftrightarrow> \<not> paused s \<and> grace_over s (snd x)"
        by (rule absent_step [OF Cons.prems(1) False, of "map sample_cycle xs"])
      show ?thesis
      proof (cases i)
        case 0
        with h False show ?thesis by simp
      next
        case (Suc m)
        with il have ml: "m < length xs" by simp
        from h Suc have f: "face_present_of (fst (xs ! m))" by simp
        from h Suc have "Pause \<notin> set (effects_of s (map sample_cycle (x # xs)) ! 0)" by blast
        with st(1) have "Pause \<notin> set es" by simp
        with st(6) have e: "es = []" by auto
        with st(5,7) Cons.prems(2) have p1: "\<not> paused s1" by auto
        have "\<forall>k<m. Pause \<notin> set (effects_of s1 (map sample_cycle xs) ! k)"
        proof (intro allI impI)
          fix k assume "k < m"
          then have "Suc k < i" using Suc by simp
          with h have "Pause \<notin> set (effects_of s (map sample_cycle (x # xs)) ! Suc k)" by blast
          with st(1) show "Pause \<notin> set (effects_of s1 (map sample_cycle xs) ! k)" by simp
        qed
        with Cons.IH [OF st(3) p1] ml f
        have "effects_of s1 (map sample_cycle xs) ! m = []" by blast
        with Suc st(1) show ?thesis by simp
      qed
    qed
  qed
qed

lemma resume_on_first_present:
  assumes "live s" and "paused s" and "\<forall>y\<in>set ys. \<not> face_present_of (fst y)"
    and "face_present_of (fst p)"
  shows "\<exists>es s2. effects_of s (map sample_cycle (ys @ p # xs))
             = replicate (length ys) [] @ es # effects_of s2 (map sample_cycle xs)
          \<and> (es = [Resume] \<or> es = [Resume, PopupResumed]) \<and> live s2 \<and> \<not> paused s2"
  using assms(1-3)
proof (induction ys arbitrary: s)
  case Nil
  obtain s1 es where
    st: "effects_of s (sample_cycle p # map sample_cycle xs) = es # effects_of s1 (map sample_cycle xs)"
      "state_after s (sample_cycle p # map sample_cycle xs) = state_after s1 (map sample_cycle xs)"
      "live s1"
      "no_face_start_time s1 = None"
      "\<not> paused s1"
      "es = [] \<or> es = [Resume] \<or> es = [Resume, PopupResumed]"
      "es \<noteq> [] \<longleftrightarrow> paused s"
    by (rule present_step [OF Nil.prems(1) assms(4), of "map sample_cycle xs"])
  from st(6,7) Nil.prems(2) have "es = [Resume] \<or> es = [Resume, PopupResumed]" by auto
  with st(1,3,5) show ?case by auto
next
  case (Cons y ys)
  from Cons.prems have a: "\<not> face_present_of (fst y)" by simp
  from Cons.prems have r: "\<forall>y\<in>set ys. \<not> face_present_of (fst y)" by simp
  obtain s1 es where
    st: "effects_of s (sample_cycle y # map sample_cycle (ys @ p # xs)) = es # effects_of s1 (map sample_cycle (ys @ p # xs))"
      "state_after s (sample_cycle y # map sample_cycle (ys @ p # xs)) = state_after s1 (map sample_cycle (ys @ p # xs))"
      "live s1"
      "no_face_start_time s1 = (case no_face_start_time s of None \<Rightarrow> Some (snd y) | Some t0 \<Rightarrow> Some t0)"
      "paused s1 = (paused s \<or> grace_over s (snd y))"
      "es = [] \<or> es = [Pause] \<or> es = [Pause, PopupPaused]"
      "es \<noteq> [] \<longleftrightarrow> \<not> paused s \<and> grace_over s (snd y)"
    by (rule absent_step [OF Cons.prems(1) a, of "map sample_cycle (ys @ p # xs)"])
  from st(5,7) Cons.prems(2) have p1: "paused s1" and e: "es = []" by simp_all
  from Cons.IH [OF st(3) p1 r] obtain es2 s2 where
    "effects_of s1 (map sample_cycle (ys @ p # xs))
             = replicate (length ys) [] @ es2 # effects_of s2 (map sample_cycle xs)"
    "es2 = [Resume] \<or> es2 = [Resume, PopupResumed]" "live s2" "\<not> paused s2" by blast
  with st(1) e show ?case by auto
qed

text \<open>Signals and popups alternate along any run.\<close>

lemma signals_alternate:
  "distinct_adj (filter is_signal (concat (effects_of s cs)))
   \<and> (filter is_signal (concat (effects_of s cs)) \<noteq> []
        \<longrightarrow> hd (filter is_signal (concat (effects_of s cs))) = (if paused s then Resume else Pause))"
proof (induction cs arbitrary: s)
  case Nil
  then show ?case by simp
next
  case (Cons c cs)
  show ?case
  proof (cases "stop_threads s")
    case True
    then show ?thesis by (simp add: effects_of_Cons)
  next
    case False
    show ?thesis
    proof (cases "loop_body c s")
      case (Inl e)
      with False show ?thesis by (simp add: effects_of_Cons)
    next
      case (Inr r)
      obtain s1 es where r: "r = (s1, es)" by (cases r)
      with Inr False have tr: "effects_of s (c # cs) = es # effects_of s1 cs"
        by (simp add: effects_of_Cons)
      from Inr r have "loop_body c s = Inr (s1, es)" by simp
      from loop_body_effects [OF this] Cons.IH [of s1] show ?thesis
        unfolding tr by (auto simp: is_signal_def distinct_adj_Cons)
    qed
  qed
qed

lemma popups_alternate:
  "distinct_adj (filter is_popup (concat (effects_of s cs)))
   \<and> (filter is_popup (concat (effects_of s cs)) \<noteq> []
        \<longrightarrow> (last_state s = ''paused''
               \<longrightarrow> hd (filter is_popup (concat (effects_of s cs))) = PopupResumed)
          \<and> (last_state s = ''running''
               \<longrightarrow> hd (filter is_popup (concat (effects_of s cs))) = PopupPaused))"
proof (induction cs arbitrary: s)
  case Nil
  then show ?case by simp
next
  case (Cons c cs)
  show ?case
  proof (cases "stop_threads s")
    case True
    then show ?thesis by (simp add: effects_of_Cons)
  next
    case False
    show ?thesis
    proof (cases "loop_body c s")
      case (Inl e)
      with False show ?thesis by (simp add: effects_of_Cons)
    next
      case (Inr r)
      obtain s1 es where r: "r = (s1, es)" by (cases r)
      with Inr False have tr: "effects_of s (c # cs) = es # effects_of s1 cs"
        by (simp add: effects_of_Cons)
      from Inr r have "loop_body c s = Inr (s1, es)" by simp
      from loop_body_effects [OF this] Cons.IH [of s1] show ?thesis
        unfolding tr by (auto simp: is_popup_def distinct_adj_Cons)
    qed
  qed
qed

text \<open>The coupling of \<open>last_state\<close> and \<open>is_paused\<close> is kept.\<close>

lemma loop_body_coupled:
  assumes "loop_body c s = Inr (s1, es)" and "coupled s"
  shows "coupled s1"
  using loop_body_effects [OF assms(1)] assms(2)
  by (auto simp: coupled_def)

lemma state_after_coupled:
  assumes "coupled s" and "state_after s cs = Inr s2"
  shows "coupled s2"
  using assms
proof (induction cs arbitrary: s)
  case Nil
  then show ?case by simp
next
  case (Cons c cs)
  show ?case
  proof (cases "stop_threads s")
    case True
    with Cons.prems show ?thesis by (simp add: state_after_Cons)
  next
    case False
    show ?thesis
    proof (cases "loop_body c s")
      case (Inl e)
      with False Cons.prems show ?thesis by (simp add: state_after_Cons)
    next
      case (Inr r)
      obtain s1 es where r: "r = (s1, es)" by (cases r)
      with Inr have b: "loop_body c s = Inr (s1, es)" by simp
      with False Cons.prems(2) have "state_after s1 cs = Inr s2"
        by (simp add: state_after_Cons)
      with Cons.IH [OF loop_body_coupled [OF b Cons.prems(1)]] show ?thesis by simp
    qed
  qed
qed

lemma start_timer_coupled: "coupled (start_timer entry cam_opens DeepWorkTimer_init)"
  by (simp add: coupled_def paused_def start_timer_def show_error_def DeepWorkTimer_init_def
      update_timer_def TimerWindow_init_def tick_def Let_def split: option.splits)

lemma update_timer_coupled: "coupled s \<Longrightarrow> coupled (update_timer s)"
  by (auto simp: coupled_def paused_def update_timer_def tick_def Let_def split: option.splits)

text \<open>Cycles without a sample.\<close>

lemma failed_cycles_hold:
  assumes "\<forall>c\<in>set cs. c = ReadFailed \<or> c = NotOpened"
  shows "state_after s cs = Inr s \<and> (\<forall>es\<in>set (effects_of s cs). es = [])"
  using assms
proof (induction cs)
  case Nil
  then show ?case by simp
next
  case (Cons c cs)
  then have "loop_body c s = Inr (s, [])" by (auto simp: loop_body_def)
  with Cons show ?case by (simp add: state_after_Cons effects_of_Cons)
qed

text \<open>A 32-bit product is the exact product when that fits, and wraps otherwise.\<close>

lemma int32_mul_exact:
  assumes "- (2 ^ 31) \<le> a * b" and "a * b < 2 ^ 31"
  shows "int32_mul a b = a * b"
proof -
  have e: "word_of_int a * word_of_int b = (word_of_int (a * b) :: 32 word)" by simp
  have "int32_mul a b = sint (word_of_int (a * b) :: 32 word)"
    unfolding int32_mul_def e ..
  also have "\<dots> = signed_take_bit 31 (a * b)"
    by (simp only: signed_of_int) simp
  also have "\<dots> = a * b"
    using assms by (simp add: signed_take_bit_int_eq_self)
  finally show ?thesis .
qed

lemma int32_mul_wraps: "int32_mul 50000 50000 = - 1794967296"
  by (simp add: int32_mul_def)

lemma inside_frame_exact:
  assumes "inside_frame fr f" and "shape0 fr * shape1 fr < 2 ^ 31"
  shows "- (2 ^ 31) \<le> face_w f * face_h f \<and> face_w f * face_h f < 2 ^ 31"
proof -
  from assms(1) have w: "0 \<le> face_w f" "face_w f \<le> int (shape1 fr)"
    and h: "0 \<le> face_h f" "face_h f \<le> int (shape0 fr)"
    by (auto simp: inside_frame_def face_w_def face_h_def split: prod.splits)
  from w h have "face_w f * face_h f \<le> int (shape1 fr) * int (shape0 fr)"
    by (intro mult_mono) simp_all
  also have "\<dots> = int (shape0 fr * shape1 fr)" by (simp add: mult.commute)
  finally have le: "face_w f * face_h f \<le> int (shape0 fr * shape1 fr)" .
  from assms(2) have "int (shape0 fr * shape1 fr) < int (2 ^ 31)"
    by (simp only: of_nat_less_iff)
  then have "int (shape0 fr * shape1 fr) < 2 ^ 31" by simp
  with le have "face_w f * face_h f < 2 ^ 31" by linarith
  moreover from w h have "0 \<le> face_w f * face_h f" by simp
  ultimately show ?thesis by simp
qed

text \<open>Python's \<open>max\<close> with a key returns a member with the greatest key.\<close>

lemma max_from_mem: "max_from k m xs \<in> set (m # xs)"
  by (induction xs arbitrary: m) auto

lemma max_from_greatest: "\<forall>y\<in>set (m # xs). k y \<le> k (max_from k m xs)"
proof (induction xs arbitrary: m)
  case Nil
  then show ?case by simp
next
  case (Cons x xs)
  have a: "k (if k m < k x then x else m) \<le> k (max_from k (if k m < k x then x else m) xs)"
    using Cons.IH [of "if k m < k x then x else m"] by simp
  have b: "\<forall>y\<in>set xs. k y \<le> k (max_from k (if k m < k x then x else m) xs)"
    using Cons.IH [of "if k m < k x then x else m"] by simp
  from a have "k m \<le> k (max_from k (if k m < k x then x else m) xs)"
    and "k x \<le> k (max_from k (if k m < k x then x else m) xs)"
    by (auto split: if_splits)
  with b show ?case by simp
qed

section \<open>The concrete sessions, evaluated\<close>

lemma started_eq: "started = \<lparr>root_withdrawn = True,
      timer_window = Some \<lparr>total_seconds = 1500, remaining_seconds = 1499, is_paused = False, is_running = True\<rparr>,
      camera = Some True,
      face_detection_thread = True, timer_scheduled = True, stop_threads = False,
      face_detected = True, no_face_start_time = None, last_state = ''running'',
      error_dialogs = [], completion_shown = False\<rparr>"
  by (simp add: started_def start_timer_def DeepWorkTimer_init_def update_timer_def TimerWindow_init_def tick_def Let_def)

lemma no_face_absent: "\<not> face_present_of no_face"
  by (simp add: face_present_of_def confidence_def max_key_def no_face_def)

lemma near_face_present: "face_present_of near_face"
  by (simp add: face_present_of_def confidence_def max_key_def near_face_def face_key_def
      face_w_def face_h_def int32_mul_exact)

lemma wrapping_faces_confidence: "confidence wrapping_faces = Some (125 / 384)"
  by (simp add: confidence_def max_key_def wrapping_faces_def face_key_def
      face_w_def face_h_def int32_mul_wraps int32_mul_exact)

lemma mixed_effects:
  "effects_of started mixed_cycles
     = [[], [], [Pause, PopupPaused], [], [], [Resume, PopupResumed], [], [], [Pause, PopupPaused]]"
  by (simp add: mixed_cycles_def started_eq effects_of_def loop_body_def observe_def
        no_face_absent near_face_present pause_def resume_def Let_def)

lemma awaiting_pause_step:
  "loop_body (Sample no_face 5) awaiting = Inr (paused_app, [Pause, PopupPaused])"
  by (simp add: awaiting_def paused_app_def started_eq loop_body_def observe_def
        no_face_absent pause_def Let_def)

section \<open>The debouncer\<close>

text \<open>
  Claim C1. A run of samples below the threshold starts in a live session that is not
  paused and has no absence timer; \<open>x0\<close> is its first sample and \<open>snd x0\<close> the
  absence start. Every sample of the run is observed. If every sample is less than 5
  seconds after the absence start, no cycle emits \<open>Pause\<close>. If some sample is at
  least 5 seconds after it, \<open>Pause\<close> is emitted exactly once in the whole run. In
  either case the cycle of sample \<open>i\<close> emits \<open>Pause\<close> exactly when \<open>i\<close> is the
  first sample whose timestamp is at least the absence start plus 5.
\<close>

theorem pause_once_after_grace:
  assumes "live s" and "\<not> paused s" and "no_face_start_time s = None"
    and "\<forall>x\<in>set (x0 # xs). \<not> face_present_of (fst x)"
  shows "length (effects_of s (map sample_cycle (x0 # xs))) = length (x0 # xs)
     \<and> ((\<forall>x\<in>set (x0 # xs). snd x - snd x0 < 5)
          \<longrightarrow> (\<forall>es\<in>set (effects_of s (map sample_cycle (x0 # xs))). Pause \<notin> set es))
     \<and> ((\<exists>x\<in>set (x0 # xs). snd x - snd x0 \<ge> 5)
          \<longrightarrow> count_list (concat (effects_of s (map sample_cycle (x0 # xs)))) Pause = 1)
     \<and> (\<forall>i<length (x0 # xs).
           Pause \<in> set (effects_of s (map sample_cycle (x0 # xs)) ! i)
           \<longleftrightarrow> (snd x0 + 5 \<le> snd ((x0 # xs) ! i)
                \<and> (\<forall>j<i. snd ((x0 # xs) ! j) < snd x0 + 5)))"
proof -
  let ?tr = "effects_of s (map sample_cycle (x0 # xs))"
  from assms(4) have a: "\<not> face_present_of (fst x0)" by simp
  from assms(4) have r: "\<forall>x\<in>set xs. \<not> face_present_of (fst x)" by simp
  obtain s1 es where
    st: "effects_of s (sample_cycle x0 # map sample_cycle xs) = es # effects_of s1 (map sample_cycle xs)"
      "state_after s (sample_cycle x0 # map sample_cycle xs) = state_after s1 (map sample_cycle xs)"
      "live s1"
      "no_face_start_time s1 = (case no_face_start_time s of None \<Rightarrow> Some (snd x0) | Some t0 \<Rightarrow> Some t0)"
      "paused s1 = (paused s \<or> grace_over s (snd x0))"
      "es = [] \<or> es = [Pause] \<or> es = [Pause, PopupPaused]"
      "es \<noteq> [] \<longleftrightarrow> \<not> paused s \<and> grace_over s (snd x0)"
    by (rule absent_step [OF assms(1) a, of "map sample_cycle xs"])
  have g: "\<not> grace_over s (snd x0)" using assms(3) by (simp add: grace_over_def)
  with st(5,7) assms(2) have p1: "\<not> paused s1" and e: "es = []" by auto
  from st(4) assms(3) have n1: "no_face_start_time s1 = Some (snd x0)" by simp
  have tr: "?tr = [] # effects_of s1 (map sample_cycle xs)" using st(1) e by simp
  note at = awaiting_absent_pause_at [OF st(3) p1 n1 r]
  note cnt = awaiting_absent_pause_count [OF st(3) p1 n1 r]
  have len: "length ?tr = length (x0 # xs)"
    using samples_run [OF assms(1), of "x0 # xs"] by simp
  have cnt': "count_list (concat ?tr) Pause = (if \<exists>x\<in>set xs. snd x0 + 5 \<le> snd x then 1 else 0)"
    using cnt tr by simp
  have idx: "\<forall>i<length (x0 # xs).
           Pause \<in> set (?tr ! i)
           \<longleftrightarrow> (snd x0 + 5 \<le> snd ((x0 # xs) ! i)
                \<and> (\<forall>j<i. snd ((x0 # xs) ! j) < snd x0 + 5))"
  proof (intro allI impI)
    fix i assume il: "i < length (x0 # xs)"
    show "Pause \<in> set (?tr ! i)
           \<longleftrightarrow> (snd x0 + 5 \<le> snd ((x0 # xs) ! i)
                \<and> (\<forall>j<i. snd ((x0 # xs) ! j) < snd x0 + 5))"
    proof (cases i)
      case 0
      with tr show ?thesis by simp
    next
      case (Suc k)
      with il have kl: "k < length xs" by simp
      from at kl have "Pause \<in> set (effects_of s1 (map sample_cycle xs) ! k)
           \<longleftrightarrow> (snd x0 + 5 \<le> snd (xs ! k) \<and> (\<forall>j<k. snd (xs ! j) < snd x0 + 5))" by blast
      moreover have "(\<forall>j<Suc k. snd ((x0 # xs) ! j) < snd x0 + 5)
            \<longleftrightarrow> (\<forall>j<k. snd (xs ! j) < snd x0 + 5)"
        by (simp add: All_less_Suc2)
      ultimately show ?thesis using Suc tr by simp
    qed
  qed
  have none: "(\<forall>x\<in>set (x0 # xs). snd x - snd x0 < 5) \<longrightarrow> (\<forall>es\<in>set ?tr. Pause \<notin> set es)"
  proof
    assume h: "\<forall>x\<in>set (x0 # xs). snd x - snd x0 < 5"
    show "\<forall>es\<in>set ?tr. Pause \<notin> set es"
    proof
      fix es assume "es \<in> set ?tr"
      then obtain i where i: "i < length ?tr" "?tr ! i = es" by (auto simp: in_set_conv_nth)
      with len have il: "i < length (x0 # xs)" by simp
      then have "(x0 # xs) ! i \<in> set (x0 # xs)" by (rule nth_mem)
      with h have "snd ((x0 # xs) ! i) - snd x0 < 5" by blast
      then have "\<not> snd x0 + 5 \<le> snd ((x0 # xs) ! i)" by simp
      with idx il i(2) show "Pause \<notin> set es" by blast
    qed
  qed
  have one: "(\<exists>x\<in>set (x0 # xs). snd x - snd x0 \<ge> 5) \<longrightarrow> count_list (concat ?tr) Pause = 1"
  proof
    assume "\<exists>x\<in>set (x0 # xs). snd x - snd x0 \<ge> 5"
    then obtain x where x: "x \<in> set (x0 # xs)" "snd x - snd x0 \<ge> 5" by blast
    then have "x \<in> set xs" "snd x0 + 5 \<le> snd x" by auto
    then have "\<exists>x\<in>set xs. snd x0 + 5 \<le> snd x" by blast
    with cnt' show "count_list (concat ?tr) Pause = 1" by simp
  qed
  from len none one idx show ?thesis by blast
qed

theorem pause_once_after_grace_witness:
  "live started \<and> \<not> paused started \<and> no_face_start_time started = None
   \<and> \<not> face_present_of no_face
   \<and> effects_of started
        (map sample_cycle [(no_face, 0), (no_face, 1/2), (no_face, 9/2), (no_face, 5), (no_face, 11/2)])
      = [[], [], [], [Pause, PopupPaused], []]
   \<and> count_list (concat (effects_of started
        (map sample_cycle [(no_face, 0), (no_face, 1/2), (no_face, 9/2), (no_face, 5), (no_face, 11/2)]))) Pause = 1
   \<and> effects_of started (map sample_cycle [(no_face, 0), (no_face, 1/2), (no_face, 9/2)])
      = [[], [], []]
   \<and> count_list (concat (effects_of started
        (map sample_cycle [(no_face, 0), (no_face, 1/2), (no_face, 9/2)]))) Pause = 0"
proof -
  have l: "live started" "\<not> paused started" "no_face_start_time started = None"
    by (simp_all add: started_eq live_def paused_def)
  have a: "\<forall>x\<in>set ((no_face, 0) # [(no_face, 1/2), (no_face, 9/2), (no_face, 5), (no_face, 11/2)]). \<not> face_present_of (fst x)"
    by (simp add: no_face_absent)
  have b: "\<forall>x\<in>set ((no_face, 0::real) # [(no_face, 1/2), (no_face, 9/2)]). \<not> face_present_of (fst x)"
    by (simp add: no_face_absent)
  have e: "effects_of started
        (map sample_cycle [(no_face, 0), (no_face, 1/2), (no_face, 9/2), (no_face, 5), (no_face, 11/2)])
      = [[], [], [], [Pause, PopupPaused], []]"
    by (simp add: started_eq effects_of_def sample_cycle_def loop_body_def observe_def
        no_face_absent pause_def Let_def)
  have e': "effects_of started (map sample_cycle [(no_face, 0), (no_face, 1/2), (no_face, 9/2)])
      = [[], [], []]"
    by (simp add: started_eq effects_of_def sample_cycle_def loop_body_def observe_def
        no_face_absent Let_def)
  from pause_once_after_grace [OF l a] pause_once_after_grace [OF l b] l e e' no_face_absent
  show ?thesis by simp
qed

text \<open>
  Claim C2. While the absence timer runs and the timer is not yet paused, one sample
  with a face is silent, clears the absence timer and leaves the session running with
  no timer. From the state it leaves, whatever samples follow, a cycle \<open>i\<close> that emits
  \<open>Pause\<close> ends a stretch \<open>j..i\<close> of samples without a face, all after the reset,
  whose timestamps span at least 5 seconds: nothing of the absence before the reset
  counts.
\<close>

theorem present_resets_absence:
  assumes "live s" and "\<not> paused s" and "no_face_start_time s = Some t0"
    and "face_present_of (fst p)"
  shows "\<exists>s1. state_after s [sample_cycle p] = Inr s1
          \<and> effects_of s [sample_cycle p] = [[]]
          \<and> no_face_start_time s1 = None \<and> \<not> paused s1 \<and> live s1
          \<and> (\<forall>xs. \<forall>i<length xs.
                Pause \<in> set (effects_of s1 (map sample_cycle xs) ! i) \<longrightarrow>
                (\<exists>j<i. (\<forall>k. j \<le> k \<and> k \<le> i \<longrightarrow> \<not> face_present_of (fst (xs ! k)))
                       \<and> snd (xs ! i) - snd (xs ! j) \<ge> 5))"
proof -
  obtain s1 es where
    st: "effects_of s (sample_cycle p # []) = es # effects_of s1 []"
      "state_after s (sample_cycle p # []) = state_after s1 []"
      "live s1"
      "no_face_start_time s1 = None"
      "\<not> paused s1"
      "es = [] \<or> es = [Resume] \<or> es = [Resume, PopupResumed]"
      "es \<noteq> [] \<longleftrightarrow> paused s"
    by (rule present_step [OF assms(1) assms(4), of "[]"])
  from st(7) assms(2) have e: "es = []" by simp
  have "\<forall>xs. \<forall>i<length xs.
                Pause \<in> set (effects_of s1 (map sample_cycle xs) ! i) \<longrightarrow>
                (\<exists>j<i. (\<forall>k. j \<le> k \<and> k \<le> i \<longrightarrow> \<not> face_present_of (fst (xs ! k)))
                       \<and> snd (xs ! i) - snd (xs ! j) \<ge> 5)"
  proof (intro allI impI)
    fix xs :: "(frame \<times> real) list" and i
    assume "i < length xs" "Pause \<in> set (effects_of s1 (map sample_cycle xs) ! i)"
    with pause_needs_full_grace [OF st(3), of xs] st(4)
    show "\<exists>j<i. (\<forall>k. j \<le> k \<and> k \<le> i \<longrightarrow> \<not> face_present_of (fst (xs ! k)))
                       \<and> snd (xs ! i) - snd (xs ! j) \<ge> 5"
      by auto
  qed
  with st e show ?thesis by simp
qed

theorem present_resets_absence_witness:
  "live awaiting \<and> \<not> paused awaiting \<and> no_face_start_time awaiting = Some 0
   \<and> face_present_of near_face
   \<and> state_after started [sample_cycle (no_face, 0), sample_cycle (no_face, 1)] = Inr awaiting
   \<and> state_after awaiting [sample_cycle (near_face, 3)] = Inr started
   \<and> effects_of awaiting [sample_cycle (near_face, 3)] = [[]]
   \<and> effects_of started (map sample_cycle [(no_face, 4), (no_face, 8), (no_face, 9)])
       = [[], [], [Pause, PopupPaused]]"
proof -
  have l: "live awaiting" "\<not> paused awaiting" "no_face_start_time awaiting = Some 0"
    by (simp_all add: awaiting_def started_eq live_def paused_def)
  have f: "face_present_of (fst (near_face, 3::real))" by (simp add: near_face_present)
  have a: "state_after started [sample_cycle (no_face, 0), sample_cycle (no_face, 1)] = Inr awaiting"
    by (simp add: awaiting_def started_eq state_after_def sample_cycle_def loop_body_def
        observe_def no_face_absent Let_def)
  have b: "state_after awaiting [sample_cycle (near_face, 3)] = Inr started"
    by (simp add: awaiting_def started_eq state_after_def sample_cycle_def loop_body_def
        observe_def near_face_present Let_def)
  have e: "effects_of started (map sample_cycle [(no_face, 4), (no_face, 8), (no_face, 9)])
       = [[], [], [Pause, PopupPaused]]"
    by (simp add: started_eq effects_of_def sample_cycle_def loop_body_def observe_def
        no_face_absent pause_def Let_def)
  from present_resets_absence [OF l f] l a b e near_face_present
  show ?thesis by auto
qed

text \<open>
  Claim C3. In a paused session, samples without a face emit nothing; the first sample
  with a face then emits \<open>Resume\<close> exactly once (and no \<open>Pause\<close>); after it, every
  sample with a face emits nothing at all as long as no \<open>Pause\<close> has been emitted
  since the resume.
\<close>

theorem resume_once_then_silent:
  assumes "live s" and "paused s" and "\<forall>y\<in>set ys. \<not> face_present_of (fst y)"
    and "face_present_of (fst p)"
  shows "length (effects_of s (map sample_cycle (ys @ p # xs))) = length ys + 1 + length xs
       \<and> (\<forall>k<length ys. effects_of s (map sample_cycle (ys @ p # xs)) ! k = [])
       \<and> count_list (effects_of s (map sample_cycle (ys @ p # xs)) ! length ys) Resume = 1
       \<and> Pause \<notin> set (effects_of s (map sample_cycle (ys @ p # xs)) ! length ys)
       \<and> (\<forall>i<length xs.
             face_present_of (fst (xs ! i))
             \<and> (\<forall>k<i. Pause \<notin> set (effects_of s (map sample_cycle (ys @ p # xs)) ! (length ys + 1 + k)))
             \<longrightarrow> effects_of s (map sample_cycle (ys @ p # xs)) ! (length ys + 1 + i) = [])"
proof -
  let ?tr = "effects_of s (map sample_cycle (ys @ p # xs))"
  from resume_on_first_present [OF assms, of xs] obtain es s2 where
    tr: "?tr = replicate (length ys) [] @ es # effects_of s2 (map sample_cycle xs)"
    and es: "es = [Resume] \<or> es = [Resume, PopupResumed]"
    and s2: "live s2" "\<not> paused s2" by blast
  have len: "length ?tr = length ys + 1 + length xs"
    using samples_run [OF assms(1), of "ys @ p # xs"] by simp
  have before: "\<forall>k<length ys. ?tr ! k = []"
    using tr by (simp add: nth_append)
  have at: "?tr ! length ys = es"
    using tr by (simp add: nth_append)
  have after: "\<And>i. ?tr ! (length ys + 1 + i) = effects_of s2 (map sample_cycle xs) ! i"
    using tr by (simp add: nth_append)
  have silent: "\<forall>i<length xs.
             face_present_of (fst (xs ! i))
             \<and> (\<forall>k<i. Pause \<notin> set (?tr ! (length ys + 1 + k)))
             \<longrightarrow> ?tr ! (length ys + 1 + i) = []"
    using running_present_silent [OF s2, of xs] by (simp only: after)
  from es have "count_list es Resume = 1" "Pause \<notin> set es" by auto
  with len before at silent show ?thesis by simp
qed

theorem resume_once_then_silent_witness:
  "state_after started [sample_cycle (no_face, 0), sample_cycle (no_face, 5)] = Inr paused_app
   \<and> live paused_app \<and> paused paused_app \<and> \<not> face_present_of no_face \<and> face_present_of near_face
   \<and> effects_of paused_app
        (map sample_cycle ([(no_face, 6), (no_face, 7)] @ (near_face, 8) #
            [(near_face, 9), (no_face, 10), (near_face, 11), (near_face, 12)]))
      = [[], [], [Resume, PopupResumed], [], [], [], []]"
proof -
  have l: "live paused_app" "paused paused_app"
    by (simp_all add: paused_app_def started_eq live_def paused_def)
  have a: "\<forall>y\<in>set [(no_face, 6::real), (no_face, 7)]. \<not> face_present_of (fst y)"
    by (simp add: no_face_absent)
  have f: "face_present_of (fst (near_face, 8::real))" by (simp add: near_face_present)
  have e: "effects_of paused_app
        (map sample_cycle ([(no_face, 6), (no_face, 7)] @ (near_face, 8) #
            [(near_face, 9), (no_face, 10), (near_face, 11), (near_face, 12)]))
      = [[], [], [Resume, PopupResumed], [], [], [], []]"
    by (simp add: paused_app_def started_eq effects_of_def sample_cycle_def loop_body_def
        observe_def no_face_absent near_face_present resume_def Let_def)
  have r: "state_after started [sample_cycle (no_face, 0), sample_cycle (no_face, 5)] = Inr paused_app"
    by (simp add: paused_app_def started_eq state_after_def sample_cycle_def loop_body_def
        observe_def no_face_absent pause_def Let_def)
  from resume_once_then_silent [OF l a f, of "[(near_face, 9), (no_face, 10), (near_face, 11), (near_face, 12)]"]
    l e r no_face_absent near_face_present
  show ?thesis by simp
qed

text \<open>
  Claim C4. For every state and every cycle, one pass of the loop emits at most one
  \<open>Pause\<close>, at most one \<open>Resume\<close> and at most one popup; \<open>Pause\<close> is emitted only
  on entering \<open>PAUSED\<close> from another state, \<open>Resume\<close> only on leaving \<open>PAUSED\<close>
  for \<open>RUNNING\<close>; a popup only accompanies its signal; and a pass that leaves the
  pause flag (in particular the machine state) as it was emits nothing. Over any run
  of the loop, from any state, no two consecutive signals are equal and no two
  consecutive popups are equal: a second \<open>Pause\<close> needs a \<open>Resume\<close> in between.
\<close>

theorem one_signal_per_transition:
  "(loop_body c s = Inr (s1, es) \<longrightarrow>
       count_list es Pause \<le> 1 \<and> count_list es Resume \<le> 1
     \<and> count_list es PopupPaused + count_list es PopupResumed \<le> 1
     \<and> (Pause \<in> set es \<longrightarrow> machine_state s \<noteq> PAUSED \<and> machine_state s1 = PAUSED)
     \<and> (Resume \<in> set es \<longrightarrow> machine_state s = PAUSED \<and> machine_state s1 = RUNNING)
     \<and> (PopupPaused \<in> set es \<longrightarrow> Pause \<in> set es)
     \<and> (PopupResumed \<in> set es \<longrightarrow> Resume \<in> set es)
     \<and> (paused s1 = paused s \<longrightarrow> es = [])
     \<and> (machine_state s1 = machine_state s \<longrightarrow> es = []))
   \<and> distinct_adj (filter is_signal (concat (effects_of s cs)))
   \<and> distinct_adj (filter is_popup (concat (effects_of s cs)))"
proof -
  have step: "loop_body c s = Inr (s1, es) \<longrightarrow>
       count_list es Pause \<le> 1 \<and> count_list es Resume \<le> 1
     \<and> count_list es PopupPaused + count_list es PopupResumed \<le> 1
     \<and> (Pause \<in> set es \<longrightarrow> machine_state s \<noteq> PAUSED \<and> machine_state s1 = PAUSED)
     \<and> (Resume \<in> set es \<longrightarrow> machine_state s = PAUSED \<and> machine_state s1 = RUNNING)
     \<and> (PopupPaused \<in> set es \<longrightarrow> Pause \<in> set es)
     \<and> (PopupResumed \<in> set es \<longrightarrow> Resume \<in> set es)
     \<and> (paused s1 = paused s \<longrightarrow> es = [])
     \<and> (machine_state s1 = machine_state s \<longrightarrow> es = [])"
  proof
    assume a: "loop_body c s = Inr (s1, es)"
    have n: "Resume \<in> set es \<longrightarrow> no_face_start_time s1 = None"
    proof (cases "camera s \<noteq> None \<and> (\<exists>fr t. c = Sample fr t)")
      case True
      then obtain fr t where "c = Sample fr t" "camera s \<noteq> None" by blast
      with a have "observe (face_present_of fr) t s = Inr (s1, es)"
        by (simp add: loop_body_def)
      then show ?thesis
        by (auto simp: observe_def Let_def split: option.splits if_splits)
    next
      case False
      with a have "es = []"
        by (cases c) (auto simp: loop_body_def split: if_splits)
      then show ?thesis by simp
    qed
    from loop_body_effects [OF a] n
    show "count_list es Pause \<le> 1 \<and> count_list es Resume \<le> 1
     \<and> count_list es PopupPaused + count_list es PopupResumed \<le> 1
     \<and> (Pause \<in> set es \<longrightarrow> machine_state s \<noteq> PAUSED \<and> machine_state s1 = PAUSED)
     \<and> (Resume \<in> set es \<longrightarrow> machine_state s = PAUSED \<and> machine_state s1 = RUNNING)
     \<and> (PopupPaused \<in> set es \<longrightarrow> Pause \<in> set es)
     \<and> (PopupResumed \<in> set es \<longrightarrow> Resume \<in> set es)
     \<and> (paused s1 = paused s \<longrightarrow> es = [])
     \<and> (machine_state s1 = machine_state s \<longrightarrow> es = [])"
      by (auto simp: machine_state_def)
  qed
  from step signals_alternate [of s cs] popups_alternate [of s cs] show ?thesis by blast
qed

theorem one_signal_per_transition_witness:
  "loop_body (Sample no_face 5) awaiting = Inr (paused_app, [Pause, PopupPaused])
   \<and> machine_state awaiting = RUNNING_AWAITING_ABSENCE_CONFIRM
   \<and> machine_state paused_app = PAUSED
   \<and> count_list [Pause, PopupPaused] Pause = 1
   \<and> filter is_signal (concat (effects_of started mixed_cycles)) = [Pause, Resume, Pause]
   \<and> filter is_popup (concat (effects_of started mixed_cycles))
        = [PopupPaused, PopupResumed, PopupPaused]
   \<and> distinct_adj (filter is_signal (concat (effects_of started mixed_cycles)))
   \<and> distinct_adj (filter is_popup (concat (effects_of started mixed_cycles)))"
proof -
  have m: "machine_state awaiting = RUNNING_AWAITING_ABSENCE_CONFIRM"
    "machine_state paused_app = PAUSED"
    by (simp_all add: machine_state_def paused_def awaiting_def paused_app_def started_eq)
  from one_signal_per_transition
         [of "Sample no_face 5" awaiting paused_app "[Pause, PopupPaused]" "[]"]
       one_signal_per_transition
         [of "Sample no_face 5" started started "[]" mixed_cycles]
       awaiting_pause_step m mixed_effects
  show ?thesis by (simp add: is_signal_def is_popup_def)
qed

text \<open>
  Claim C5. Let the debouncer be in the state \<open>s1\<close> that the observation of a sample
  \<open>(fa, ta)\<close> left. A sample \<open>(fb, tb)\<close> with the same verdict \<open>face_present\<close>, and
  which does not take the elapsed absence time from below 5 seconds (at \<open>ta\<close>) to 5
  seconds or more (at \<open>tb\<close>), emits nothing and leaves the state as it is. The same
  holds in the state of a freshly started session, whose verdict is the initial
  \<open>face_detected = True\<close>.
\<close>

theorem same_verdict_no_action:
  "(loop_body (Sample fa ta) s0 = Inr (s1, ea)
      \<and> face_present_of fb = face_present_of fa
      \<and> \<not> (\<exists>t0. no_face_start_time s1 = Some t0 \<and> ta - t0 < 5 \<and> 5 \<le> tb - t0)
     \<longrightarrow> loop_body (Sample fb tb) s1 = Inr (s1, []))
   \<and> (1 \<le> m \<and> m \<le> 999
        \<and> face_present_of fb = face_detected (start_timer (Some m) True DeepWorkTimer_init)
     \<longrightarrow> loop_body (Sample fb tb) (start_timer (Some m) True DeepWorkTimer_init)
           = Inr (start_timer (Some m) True DeepWorkTimer_init, []))"
proof (intro conjI impI)
  assume h: "loop_body (Sample fa ta) s0 = Inr (s1, ea)
      \<and> face_present_of fb = face_present_of fa
      \<and> \<not> (\<exists>t0. no_face_start_time s1 = Some t0 \<and> ta - t0 < 5 \<and> 5 \<le> tb - t0)"
  show "loop_body (Sample fb tb) s1 = Inr (s1, [])"
  proof (cases "camera s0 = None")
    case True
    with h show ?thesis by (auto simp: loop_body_def)
  next
    case False
    with h have o: "observe (face_present_of fa) ta s0 = Inr (s1, ea)"
      by (simp add: loop_body_def)
    show ?thesis
    proof (cases "face_present_of fa")
      case True
      with o h False show ?thesis
        by (auto simp: loop_body_def observe_def resume_def Let_def
            split: option.splits if_splits)
    next
      case fa: False
      from h have nc: "\<And>t0. no_face_start_time s1 = Some t0 \<Longrightarrow> ta - t0 < 5 \<Longrightarrow> \<not> 5 \<le> tb - t0"
        by blast
      show ?thesis
      proof (cases "no_face_start_time s0")
        case None
        with o fa have s1: "s1 = s0\<lparr>no_face_start_time := Some ta\<rparr>"
          by (simp add: observe_def)
        with nc [of ta] have "\<not> 5 \<le> tb - ta" by simp
        with s1 fa h False show ?thesis
          by (simp add: loop_body_def observe_def)
      next
        case (Some t0)
        show ?thesis
        proof (cases "5 \<le> ta - t0")
          case True
          with o fa Some obtain w where w: "timer_window s0 = Some w"
            by (auto simp: observe_def split: option.splits)
          with o fa Some True have "timer_window s1 \<noteq> None \<and> paused s1
               \<and> no_face_start_time s1 = Some t0 \<and> camera s1 = camera s0"
            by (auto simp: observe_def paused_def pause_def Let_def split: if_splits)
          with fa h False show ?thesis
            by (auto simp: loop_body_def observe_def paused_def split: option.splits)
        next
          case f: False
          with o fa Some have s1: "s1 = s0" by (simp add: observe_def)
          with Some f nc [of t0] have "\<not> 5 \<le> tb - t0" by simp
          with s1 Some fa h False show ?thesis
            by (simp add: loop_body_def observe_def)
        qed
      qed
    qed
  qed
next
  assume "1 \<le> m \<and> m \<le> 999
        \<and> face_present_of fb = face_detected (start_timer (Some m) True DeepWorkTimer_init)"
  then show "loop_body (Sample fb tb) (start_timer (Some m) True DeepWorkTimer_init)
           = Inr (start_timer (Some m) True DeepWorkTimer_init, [])"
    by (simp add: start_timer_def DeepWorkTimer_init_def update_timer_def TimerWindow_init_def
        tick_def Let_def loop_body_def observe_def)
qed

theorem same_verdict_no_action_witness:
  "loop_body (Sample no_face 0) started = Inr (awaiting, [])
   \<and> face_present_of no_face = face_present_of no_face
   \<and> \<not> (\<exists>t0. no_face_start_time awaiting = Some t0 \<and> 0 - t0 < 5 \<and> 5 \<le> 4 - t0)
   \<and> loop_body (Sample no_face 4) awaiting = Inr (awaiting, [])
   \<and> face_present_of near_face = face_detected started
   \<and> loop_body (Sample near_face 1) started = Inr (started, [])"
proof -
  have a: "loop_body (Sample no_face 0) started = Inr (awaiting, [])"
    by (simp add: awaiting_def started_eq loop_body_def observe_def no_face_absent)
  have n: "\<not> (\<exists>t0. no_face_start_time awaiting = Some t0 \<and> 0 - t0 < 5 \<and> 5 \<le> 4 - t0)"
    by (simp add: awaiting_def started_eq)
  have d: "face_present_of near_face = face_detected started"
    by (simp add: near_face_present started_eq)
  from same_verdict_no_action [of no_face 0 started awaiting "[]" no_face 4 25]
       same_verdict_no_action [of no_face 0 started awaiting "[]" near_face 1 25]
       a n d
  show ?thesis by (simp add: started_def [symmetric])
qed

section \<open>The frame source\<close>

text \<open>
  Claim C6. For a frame of positive area with at least one detected face, where the
  area \<open>w * h\<close> of every detected rectangle fits the 32-bit integers in which the
  source multiplies (as it does for rectangles inside a frame of fewer than
  \<open>2^31\<close> pixels), the confidence is \<open>min(100, (face_area / frame_area) * 1000)\<close>
  for a detected face whose bounding-box area \<open>w * h\<close> is the largest among all
  detected faces.
\<close>

theorem confidence_of_largest_face:
  assumes "faces fr \<noteq> []" and "0 < shape0 fr * shape1 fr"
    and "\<forall>g\<in>set (faces fr). - (2 ^ 31) \<le> face_w g * face_h g \<and> face_w g * face_h g < 2 ^ 31"
  shows "\<exists>f\<in>set (faces fr).
           (\<forall>g\<in>set (faces fr). face_w g * face_h g \<le> face_w f * face_h f)
         \<and> face_w f * face_h f = Max ((\<lambda>g. face_w g * face_h g) ` set (faces fr))
         \<and> confidence fr
             = Some (min 100 (real_of_int (face_w f * face_h f)
                                / real (shape0 fr * shape1 fr) * 1000))"
proof -
  from assms(1) obtain x rest where xs: "faces fr = x # rest" by (cases "faces fr") auto
  let ?f = "max_from face_key x rest"
  have key: "\<And>g. g \<in> set (faces fr) \<Longrightarrow> face_key g = face_w g * face_h g"
    using assms(3) by (simp add: face_key_def int32_mul_exact)
  have mem: "?f \<in> set (faces fr)" using max_from_mem [of face_key x rest] xs by simp
  have "\<forall>g\<in>set (faces fr). face_key g \<le> face_key ?f"
    using max_from_greatest [of x rest face_key] xs by simp
  with key mem have top: "\<forall>g\<in>set (faces fr). face_w g * face_h g \<le> face_w ?f * face_h ?f"
    by simp
  have mx: "face_w ?f * face_h ?f = Max ((\<lambda>g. face_w g * face_h g) ` set (faces fr))"
  proof (rule sym, rule Max_eqI)
    show "finite ((\<lambda>g. face_w g * face_h g) ` set (faces fr))" by simp
    show "\<And>y. y \<in> (\<lambda>g. face_w g * face_h g) ` set (faces fr) \<Longrightarrow> y \<le> face_w ?f * face_h ?f"
      using top by auto
    show "face_w ?f * face_h ?f \<in> (\<lambda>g. face_w g * face_h g) ` set (faces fr)"
      using mem by blast
  qed
  have "int32_mul (face_w ?f) (face_h ?f) = face_w ?f * face_h ?f"
    using key [OF mem] by (simp add: face_key_def)
  then have c: "confidence fr
             = Some (min 100 (real_of_int (face_w ?f * face_h ?f)
                                / real (shape0 fr * shape1 fr) * 1000))"
    using xs by (simp add: confidence_def max_key_def Let_def)
  from mem top mx c show ?thesis by blast
qed

theorem confidence_of_largest_face_witness:
  "faces near_face \<noteq> [] \<and> 0 < shape0 near_face * shape1 near_face
   \<and> inside_frame near_face (10, 10, 40, 40) \<and> inside_frame near_face (200, 100, 200, 200)
   \<and> confidence near_face = Some 100
   \<and> confidence far_face = Some 25
   \<and> (\<exists>f\<in>set (faces near_face).
         (\<forall>g\<in>set (faces near_face). face_w g * face_h g \<le> face_w f * face_h f)
         \<and> confidence near_face
             = Some (min 100 (real_of_int (face_w f * face_h f)
                                / real (shape0 near_face * shape1 near_face) * 1000)))
   \<and> (\<exists>f\<in>set (faces far_face).
         face_w f * face_h f = 7680
         \<and> confidence far_face
             = Some (min 100 (real_of_int (face_w f * face_h f)
                                / real (shape0 far_face * shape1 far_face) * 1000)))"
proof -
  have a: "faces near_face \<noteq> []" "0 < shape0 near_face * shape1 near_face"
    by (simp_all add: near_face_def)
  have i: "inside_frame near_face (10, 10, 40, 40)" "inside_frame near_face (200, 100, 200, 200)"
    by (simp_all add: inside_frame_def near_face_def)
  have n: "\<forall>g\<in>set (faces near_face).
             - (2 ^ 31) \<le> face_w g * face_h g \<and> face_w g * face_h g < 2 ^ 31"
    by (simp add: near_face_def face_w_def face_h_def)
  have a': "faces far_face \<noteq> []" "0 < shape0 far_face * shape1 far_face"
    by (simp_all add: far_face_def)
  have n': "\<forall>g\<in>set (faces far_face).
             - (2 ^ 31) \<le> face_w g * face_h g \<and> face_w g * face_h g < 2 ^ 31"
    by (simp add: far_face_def face_w_def face_h_def)
  have b: "confidence near_face = Some 100"
    by (simp add: confidence_def max_key_def near_face_def face_key_def face_w_def face_h_def
        int32_mul_exact)
  have c: "confidence far_face = Some 25"
    by (simp add: confidence_def max_key_def far_face_def face_key_def face_w_def face_h_def
        int32_mul_exact)
  have m: "Max ((\<lambda>g. face_w g * face_h g) ` set (faces far_face)) = 7680"
    by (simp add: far_face_def face_w_def face_h_def)
  from confidence_of_largest_face [OF a n] have 1: "\<exists>f\<in>set (faces near_face).
         (\<forall>g\<in>set (faces near_face). face_w g * face_h g \<le> face_w f * face_h f)
         \<and> confidence near_face
             = Some (min 100 (real_of_int (face_w f * face_h f)
                                / real (shape0 near_face * shape1 near_face) * 1000))"
    by blast
  from confidence_of_largest_face [OF a' n'] m have 2: "\<exists>f\<in>set (faces far_face).
         face_w f * face_h f = 7680
         \<and> confidence far_face
             = Some (min 100 (real_of_int (face_w f * face_h f)
                                / real (shape0 far_face * shape1 far_face) * 1000))"
    by auto
  from a i b c 1 2 show ?thesis by blast
qed

text \<open>
  Claim C7. A cycle whose read fails (or whose camera is not open) returns the state it
  was given and emits nothing; over any number of such cycles the loop ends in the
  state it started from, with no effect in any cycle.
\<close>

theorem failed_read_changes_nothing:
  "loop_body ReadFailed s = Inr (s, [])
   \<and> loop_body NotOpened s = Inr (s, [])
   \<and> ((\<forall>c\<in>set cs. c = ReadFailed \<or> c = NotOpened)
        \<longrightarrow> state_after s cs = Inr s \<and> (\<forall>es\<in>set (effects_of s cs). es = []))"
  using failed_cycles_hold [of cs s] by (simp add: loop_body_def)

theorem failed_read_changes_nothing_witness:
  "loop_body ReadFailed awaiting = Inr (awaiting, [])
   \<and> state_after awaiting [ReadFailed, ReadFailed, NotOpened, ReadFailed] = Inr awaiting
   \<and> effects_of awaiting [ReadFailed, ReadFailed, NotOpened, ReadFailed] = [[], [], [], []]
   \<and> state_after paused_app (replicate 3 ReadFailed) = Inr paused_app"
proof -
  have e: "effects_of awaiting [ReadFailed, ReadFailed, NotOpened, ReadFailed] = [[], [], [], []]"
    by (simp add: effects_of_Cons loop_body_def awaiting_def started_eq)
  from failed_read_changes_nothing [of awaiting "[ReadFailed, ReadFailed, NotOpened, ReadFailed]"]
       failed_read_changes_nothing [of paused_app "replicate 3 ReadFailed"] e
  show ?thesis by simp
qed

section \<open>Starting a session\<close>

text \<open>
  Claim C8. Starting a 25 minute session while the camera cannot be opened shows the
  error, starts no detection thread and schedules no countdown; but the input window
  has been withdrawn and a timer window of 1500 seconds created, so the state is not
  the one before the attempt with only the error dialog added. The rejected entry
  \<open>0\<close>, in contrast, only adds its error dialog.
\<close>

theorem camera_failure_leaves_session_half_started:
  "start_timer (Some 25) False DeepWorkTimer_init
     = DeepWorkTimer_init\<lparr>root_withdrawn := True,
         timer_window := Some (TimerWindow_init 1500),
         camera := Some False,
         error_dialogs := [''Could not access webcam'']\<rparr>
   \<and> \<not> face_detection_thread (start_timer (Some 25) False DeepWorkTimer_init)
   \<and> \<not> timer_scheduled (start_timer (Some 25) False DeepWorkTimer_init)
   \<and> root_withdrawn (start_timer (Some 25) False DeepWorkTimer_init)
   \<and> \<not> root_withdrawn DeepWorkTimer_init
   \<and> timer_window (start_timer (Some 25) False DeepWorkTimer_init) \<noteq> None
   \<and> timer_window DeepWorkTimer_init = None
   \<and> start_timer (Some 25) False DeepWorkTimer_init
       \<noteq> DeepWorkTimer_init\<lparr>error_dialogs := [''Could not access webcam'']\<rparr>
   \<and> start_timer (Some 0) False DeepWorkTimer_init
       = DeepWorkTimer_init\<lparr>error_dialogs := [''Please enter a value between 1 and 999 minutes'']\<rparr>"
  by (simp add: start_timer_def show_error_def DeepWorkTimer_init_def Let_def)


section \<open>Notification bookkeeping\<close>

text \<open>
  Claim C10. \<open>last_state\<close> is \<open>''paused''\<close> exactly when the timer is paused: this
  holds after initialisation, after \<open>start_timer\<close> whatever its outcome, and in every
  state the detection loop reaches from there; one pass of the loop and one call of
  \<open>update_timer\<close> preserve it. In such a state a pass emits \<open>Pause\<close> exactly when it
  emits the pause popup, and \<open>Resume\<close> exactly when it emits the resume popup.
\<close>

theorem last_state_agrees_with_is_paused:
  "coupled DeepWorkTimer_init
   \<and> coupled (start_timer entry cam_opens DeepWorkTimer_init)
   \<and> (\<forall>s2. state_after (start_timer entry cam_opens DeepWorkTimer_init) cs = Inr s2 \<longrightarrow> coupled s2)
   \<and> (coupled s \<and> loop_body c s = Inr (s1, es) \<longrightarrow>
         coupled s1
       \<and> (Pause \<in> set es \<longleftrightarrow> PopupPaused \<in> set es)
       \<and> (Resume \<in> set es \<longleftrightarrow> PopupResumed \<in> set es))
   \<and> (coupled s \<longrightarrow> coupled (update_timer s))"
proof -
  have i: "coupled DeepWorkTimer_init"
    by (simp add: coupled_def paused_def DeepWorkTimer_init_def)
  have r: "\<forall>s2. state_after (start_timer entry cam_opens DeepWorkTimer_init) cs = Inr s2 \<longrightarrow> coupled s2"
    using state_after_coupled [OF start_timer_coupled] by blast
  have st: "coupled s \<and> loop_body c s = Inr (s1, es) \<longrightarrow>
         coupled s1
       \<and> (Pause \<in> set es \<longleftrightarrow> PopupPaused \<in> set es)
       \<and> (Resume \<in> set es \<longleftrightarrow> PopupResumed \<in> set es)"
  proof
    assume a: "coupled s \<and> loop_body c s = Inr (s1, es)"
    then have b: "loop_body c s = Inr (s1, es)" and c: "coupled s" by simp_all
    from loop_body_effects [OF b] c
    have "(Pause \<in> set es \<longleftrightarrow> PopupPaused \<in> set es)
       \<and> (Resume \<in> set es \<longleftrightarrow> PopupResumed \<in> set es)"
      by (auto simp: coupled_def)
    with loop_body_coupled [OF b c] show "coupled s1
       \<and> (Pause \<in> set es \<longleftrightarrow> PopupPaused \<in> set es)
       \<and> (Resume \<in> set es \<longleftrightarrow> PopupResumed \<in> set es)" by simp
  qed
  from i start_timer_coupled r st update_timer_coupled show ?thesis by blast
qed

theorem last_state_agrees_with_is_paused_witness:
  "coupled started \<and> coupled awaiting
   \<and> loop_body (Sample no_face 5) awaiting = Inr (paused_app, [Pause, PopupPaused])
   \<and> coupled paused_app \<and> last_state paused_app = ''paused'' \<and> paused paused_app
   \<and> last_state started = ''running'' \<and> \<not> paused started
   \<and> coupled (update_timer paused_app)"
proof -
  have c: "coupled awaiting"
    by (simp add: coupled_def paused_def awaiting_def started_eq)
  from last_state_agrees_with_is_paused
         [of "Some 25" True "[]" awaiting "Sample no_face 5" paused_app "[Pause, PopupPaused]"]
       last_state_agrees_with_is_paused
         [of "Some 25" True "[]" paused_app "Sample no_face 5" paused_app "[]"]
       c awaiting_pause_step
  show ?thesis
    by (simp add: started_def [symmetric])
       (simp add: paused_app_def started_eq paused_def)
qed

end
